theory Spec2Isabelle
  imports Complex_Main "HOL-Library.AList" "HOL-Library.Multiset" "HOL-Library.Log_Nat"
begin

section \<open>Dates\<close>

text \<open>
  A JavaScript \<^verbatim>\<open>Date\<close> (and a \<^verbatim>\<open>moment\<close>) is an instant: the number of
  milliseconds since 1970-01-01T00:00:00Z. The calendar accessors of \<^verbatim>\<open>moment\<close>
  (\<^verbatim>\<open>hour()\<close>, \<^verbatim>\<open>day()\<close>, \<^verbatim>\<open>startOf('day')\<close>, \<^verbatim>\<open>add(n, 'days')\<close>) are read in
  the server's time zone, which is taken to be UTC here, so that a day is always
  86400000 ms long. 1970-01-01 was a Thursday, \<^verbatim>\<open>day()\<close> numbers Sunday as 0.
\<close>

type_synonym date = int

definition msPerMinute :: int where "msPerMinute = 60000"
definition msPerHour :: int where "msPerHour = 3600000"
definition msPerDay :: int where "msPerDay = 86400000"

definition day_of :: "date \<Rightarrow> int" where
  "day_of t = (t div msPerDay + 4) mod 7"

definition hour_of :: "date \<Rightarrow> int" where
  "hour_of t = (t mod msPerDay) div msPerHour"

definition minute_of :: "date \<Rightarrow> int" where
  "minute_of t = (t mod msPerHour) div msPerMinute"

definition startOf_day :: "date \<Rightarrow> date" where
  "startOf_day t = t - t mod msPerDay"

definition add_days :: "date \<Rightarrow> int \<Rightarrow> date" where
  "add_days t n = t + n * msPerDay"

definition add_minutes :: "date \<Rightarrow> int \<Rightarrow> date" where
  "add_minutes t n = t + n * msPerMinute"

text \<open>\<^verbatim>\<open>m.hour(h)\<close> and \<^verbatim>\<open>m.minute(n)\<close> replace one component and keep the others.\<close>

definition set_hour :: "date \<Rightarrow> int \<Rightarrow> date" where
  "set_hour t h = t - hour_of t * msPerHour + h * msPerHour"

definition set_minute :: "date \<Rightarrow> int \<Rightarrow> date" where
  "set_minute t n = t - minute_of t * msPerMinute + n * msPerMinute"

text \<open>\<^verbatim>\<open>moment(b).diff(moment(a), 'minutes')\<close> truncates towards zero.\<close>

definition diff_minutes :: "date \<Rightarrow> date \<Rightarrow> int" where
  "diff_minutes b a =
     (if a \<le> b then (b - a) div msPerMinute else - ((a - b) div msPerMinute))"

section \<open>Scheduling preferences\<close>

record workingHours =
  wh_start :: int
  wh_end :: int

text \<open>
  The caller's \<^verbatim>\<open>preferences\<close> object, with the fields that the two services
  read. Every field is optional in the source; a
  flag that is absent is falsy, which is \<open>False\<close> here, and the two fields that have
  a default (\<^verbatim>\<open>preferences.workingHours || {start: 9, end: 17}\<close>,
  \<^verbatim>\<open>preferences.preferredDays || [1,2,3,4,5]\<close>) are options.
\<close>

record preferences =
  workingHours :: "workingHours option"
  preferredDays :: "int list option"
  includeWeekends :: bool
  preferMorning :: bool
  preferAfternoon :: bool
  avoidMondays :: bool
  avoidFridays :: bool
  avoidEarlyMorning :: bool
  avoidLateMeeting :: bool

definition no_preferences :: preferences where
  "no_preferences = \<lparr>workingHours = None, preferredDays = None, includeWeekends = False,
     preferMorning = False, preferAfternoon = False, avoidMondays = False,
     avoidFridays = False, avoidEarlyMorning = False, avoidLateMeeting = False\<rparr>"

section \<open>Stored data\<close>

type_synonym objectId = nat

record user =
  user_id :: objectId
  name :: string
  email :: string

record participant =
  user :: objectId
  rsvp :: string

text \<open>
  A document of the \<^verbatim>\<open>meetings\<close> collection, with the fields that the services read.
  The schema of Meeting.js declares \<^verbatim>\<open>category\<close>; the aggregations of
  smartCalendarService.js read a field \<^verbatim>\<open>type\<close>, which a document may or may not
  carry, hence the option.
\<close>

record meeting =
  meeting_id :: objectId
  title :: string
  organizer :: objectId
  participants :: "participant list"
  startTime :: date
  endTime :: date
  category :: string
  mtype :: "string option"
  priority :: string
  status :: string

record database =
  meetings :: "meeting list"
  users :: "user list"

section \<open>Query documents\<close>

text \<open>
  The filter of a \<^verbatim>\<open>$match\<close> stage is a JavaScript object. An object literal is
  evaluated key by key, from left to right, and a key that occurs again replaces the value
  stored before (the key keeps its first position).
\<close>

datatype val = Id objectId | Date date | Str string

datatype cond = In "val list" | Ne val | Lte val | Lt val | Gte val | Gt val

datatype qvalue = Or "(string \<times> cond) list list" | Field cond

type_synonym query = "(string \<times> qvalue) list"

definition js_object :: "(string \<times> 'v) list \<Rightarrow> (string \<times> 'v) list" where
  "js_object kvs = foldl (\<lambda>obj (k, v). AList.update k v obj) [] kvs"

text \<open>The values a path reads in a meeting; a path through an array reads every element.\<close>

definition field_values :: "meeting \<Rightarrow> string \<Rightarrow> val list" where
  "field_values m path =
     (if path = ''_id'' then [Id (meeting_id m)]
      else if path = ''organizer'' then [Id (organizer m)]
      else if path = ''participants.user'' then map (\<lambda>p. Id (user p)) (participants m)
      else if path = ''startTime'' then [Date (startTime m)]
      else if path = ''endTime'' then [Date (endTime m)]
      else if path = ''status'' then [Str (status m)]
      else if path = ''priority'' then [Str (priority m)]
      else [])"

fun compare_dates :: "(int \<Rightarrow> int \<Rightarrow> bool) \<Rightarrow> val \<Rightarrow> val \<Rightarrow> bool" where
  "compare_dates rel (Date a) (Date b) = rel a b"
| "compare_dates rel _ _ = False"

fun holds :: "cond \<Rightarrow> val list \<Rightarrow> bool" where
  "holds (In vs) fvs = list_ex (\<lambda>fv. fv \<in> set vs) fvs"
| "holds (Ne v) fvs = list_all (\<lambda>fv. fv \<noteq> v) fvs"
| "holds (Lte v) fvs = list_ex (\<lambda>fv. compare_dates (\<le>) fv v) fvs"
| "holds (Lt v) fvs = list_ex (\<lambda>fv. compare_dates (<) fv v) fvs"
| "holds (Gte v) fvs = list_ex (\<lambda>fv. compare_dates (\<ge>) fv v) fvs"
| "holds (Gt v) fvs = list_ex (\<lambda>fv. compare_dates (>) fv v) fvs"

definition matches_fields :: "(string \<times> cond) list \<Rightarrow> meeting \<Rightarrow> bool" where
  "matches_fields doc m = list_all (\<lambda>(path, c). holds c (field_values m path)) doc"

fun matches_entry :: "string \<times> qvalue \<Rightarrow> meeting \<Rightarrow> bool" where
  "matches_entry (k, Or docs) m = list_ex (\<lambda>doc. matches_fields doc m) docs"
| "matches_entry (k, Field c) m = holds c (field_values m k)"

definition matches :: "query \<Rightarrow> meeting \<Rightarrow> bool" where
  "matches q m = list_all (\<lambda>entry. matches_entry entry m) q"

subsection \<open>The filter of \<^verbatim>\<open>checkAvailability\<close>\<close>

definition checkAvailability_match ::
    "objectId list \<Rightarrow> date \<Rightarrow> date \<Rightarrow> objectId option \<Rightarrow> query" where
  "checkAvailability_match participants' startTime' endTime' excludeMeetingId =
     js_object
       ([(''$or'', Or [[(''organizer'', In (map Id participants'))],
                       [(''participants.user'', In (map Id participants'))]]),
         (''$or'', Or [[(''startTime'', Lte (Date startTime')), (''endTime'', Gt (Date startTime'))],
                       [(''startTime'', Lt (Date endTime')), (''endTime'', Gte (Date endTime'))],
                       [(''startTime'', Gte (Date startTime')), (''endTime'', Lte (Date endTime'))]]),
         (''status'', Field (In [Str ''scheduled'', Str ''in_progress'']))]
        @ (case excludeMeetingId of
             None \<Rightarrow> []
           | Some i \<Rightarrow> [(''_id'', Field (Ne (Id i)))]))"

subsection \<open>The filter of \<^verbatim>\<open>detectConflicts\<close> (AI insights service)\<close>

definition detectConflicts_match ::
    "objectId \<Rightarrow> objectId list \<Rightarrow> date \<Rightarrow> date \<Rightarrow> query" where
  "detectConflicts_match organizer' participants' startTime' endTime' =
     js_object
       [(''$or'', Or [[(''organizer'', In (map Id (organizer' # participants')))],
                      [(''participants.user'', In (map Id (organizer' # participants')))]]),
        (''$or'', Or [[(''startTime'', Lte (Date startTime')), (''endTime'', Gt (Date startTime'))],
                      [(''startTime'', Lt (Date endTime')), (''endTime'', Gte (Date endTime'))],
                      [(''startTime'', Gte (Date startTime')), (''endTime'', Lte (Date endTime'))]]),
        (''status'', Field (In [Str ''scheduled'', Str ''in_progress'']))]"

text \<open>The time clause that survives in both filters, read on a meeting.\<close>

definition window_clause :: "date \<Rightarrow> date \<Rightarrow> date \<Rightarrow> date \<Rightarrow> bool" where
  "window_clause s e st et =
     (st \<le> s \<and> et > s \<or> st < e \<and> et \<ge> e \<or> st \<ge> s \<and> et \<le> e)"

definition time_clause :: "date \<Rightarrow> date \<Rightarrow> meeting \<Rightarrow> bool" where
  "time_clause s e m = window_clause s e (startTime m) (endTime m)"

definition not_excluded :: "objectId option \<Rightarrow> meeting \<Rightarrow> bool" where
  "not_excluded x m = (case x of None \<Rightarrow> True | Some i \<Rightarrow> meeting_id m \<noteq> i)"


section \<open>Interval conflict detector\<close>

subsection \<open>The aggregation pipeline of \<^verbatim>\<open>checkAvailability\<close>\<close>

text \<open>The element that \<^verbatim>\<open>$push\<close> appends to \<^verbatim>\<open>conflicts\<close> for a meeting.\<close>

record conflict =
  c_meetingId :: objectId
  c_title :: string
  c_startTime :: date
  c_endTime :: date
  c_priority :: string
  c_type :: "string option"

definition conflict_of :: "meeting \<Rightarrow> conflict" where
  "conflict_of m = \<lparr>c_meetingId = meeting_id m, c_title = title m,
     c_startTime = startTime m, c_endTime = endTime m, c_priority = priority m,
     c_type = mtype m\<rparr>"

text \<open>The document that \<^verbatim>\<open>$project\<close> emits, and the default object built for a
  participant without one.\<close>

record availability_item =
  userId :: objectId
  item_name :: string
  item_email :: string
  conflicts :: "conflict list"
  conflictCount :: nat
  highPriorityConflicts :: nat
  availability :: string

text \<open>\<^verbatim>\<open>$match\<close>.\<close>

definition match_stage :: "query \<Rightarrow> meeting list \<Rightarrow> meeting list" where
  "match_stage q docs = filter (matches q) docs"

text \<open>
  \<^verbatim>\<open>$lookup\<close> from \<^verbatim>\<open>users\<close> on \<^verbatim>\<open>participants.user\<close>: the users whose
  \<^verbatim>\<open>_id\<close> is one of the local values, in the order of the collection. (The
  \<^verbatim>\<open>$lookup\<close> before it adds \<^verbatim>\<open>organizerInfo\<close>, which no later stage reads.)
\<close>

definition lookup_users :: "user list \<Rightarrow> objectId list \<Rightarrow> user list" where
  "lookup_users us ids = filter (\<lambda>u. user_id u \<in> set ids) us"

definition lookup_participantInfo :: "user list \<Rightarrow> meeting list \<Rightarrow> (meeting \<times> user list) list" where
  "lookup_participantInfo us docs =
     map (\<lambda>m. (m, lookup_users us (map user (participants m)))) docs"

text \<open>\<^verbatim>\<open>$unwind\<close> of \<^verbatim>\<open>participantInfo\<close> with \<^verbatim>\<open>preserveNullAndEmptyArrays\<close>: a
  document whose array is empty is kept once, without the field.\<close>

definition unwind_participantInfo ::
    "(meeting \<times> user list) list \<Rightarrow> (meeting \<times> user option) list" where
  "unwind_participantInfo docs =
     concat (map (\<lambda>(m, infos). if infos = [] then [(m, None)]
                                else map (\<lambda>u. (m, Some u)) infos) docs)"

text \<open>\<^verbatim>\<open>$group\<close> by \<^verbatim>\<open>participantInfo._id\<close>: one group per key, the documents of a
  group in the order of arrival (the groups are listed by first arrival).\<close>

fun group_docs :: "('k \<times> 'v) list \<Rightarrow> ('k \<times> 'v list) list" where
  "group_docs [] = []"
| "group_docs ((k, v) # kvs) =
     (k, v # map snd (filter (\<lambda>kv. fst kv = k) kvs))
     # group_docs (filter (\<lambda>kv. fst kv \<noteq> k) kvs)"

record group_doc =
  g_id :: "objectId option"
  g_conflicts :: "conflict list"
  g_conflictCount :: nat
  g_highPriorityConflicts :: nat

definition group_stage :: "(meeting \<times> user option) list \<Rightarrow> group_doc list" where
  "group_stage docs =
     map (\<lambda>(k, ms). \<lparr>g_id = k,
                      g_conflicts = map conflict_of ms,
                      g_conflictCount = sum_list (map (\<lambda>m. 1) ms),
                      g_highPriorityConflicts =
                        sum_list (map (\<lambda>m. if priority m = ''high'' then 1 else 0) ms)\<rparr>)
       (group_docs (map (\<lambda>(m, info). (map_option user_id info, m)) docs))"

text \<open>\<^verbatim>\<open>$lookup\<close> of \<^verbatim>\<open>userInfo\<close> on the group key, then \<^verbatim>\<open>$unwind\<close> without
  \<^verbatim>\<open>preserveNullAndEmptyArrays\<close>: a group that finds no user is dropped.\<close>

definition lookup_unwind_userInfo ::
    "user list \<Rightarrow> group_doc list \<Rightarrow> (objectId \<times> group_doc \<times> user) list" where
  "lookup_unwind_userInfo us groups =
     concat (map (\<lambda>g. case g_id g of
                        None \<Rightarrow> []
                      | Some i \<Rightarrow> map (\<lambda>u. (i, g, u)) (filter (\<lambda>u. user_id u = i) us))
               groups)"

text \<open>\<^verbatim>\<open>$project\<close>; the first component is the \<^verbatim>\<open>_id\<close> of the group, which the
  lookup has found not to be null.\<close>

definition project_stage ::
    "(objectId \<times> group_doc \<times> user) list \<Rightarrow> availability_item list" where
  "project_stage docs =
     map (\<lambda>(i, g, userInfo).
            \<lparr>userId = i,
             item_name = name userInfo,
             item_email = email userInfo,
             conflicts = g_conflicts g,
             conflictCount = g_conflictCount g,
             highPriorityConflicts = g_highPriorityConflicts g,
             availability =
               (if g_conflictCount g = 0 then ''available''
                else if g_highPriorityConflicts g > 0 then ''busy''
                else ''tentative'')\<rparr>) docs"

definition availabilityData ::
    "database \<Rightarrow> objectId list \<Rightarrow> date \<Rightarrow> date \<Rightarrow> objectId option \<Rightarrow> availability_item list" where
  "availabilityData db participants' startTime' endTime' excludeMeetingId =
     project_stage
       (lookup_unwind_userInfo (users db)
          (group_stage
             (unwind_participantInfo
                (lookup_participantInfo (users db)
                   (match_stage
                      (checkAvailability_match participants' startTime' endTime' excludeMeetingId)
                      (meetings db))))))"

subsection \<open>The availability of every requested participant\<close>

text \<open>\<^verbatim>\<open>User.find({_id: {$in: participants}})\<close>.\<close>

definition allParticipants :: "database \<Rightarrow> objectId list \<Rightarrow> user list" where
  "allParticipants db participants' = filter (\<lambda>u. user_id u \<in> set participants') (users db)"

text \<open>\<^verbatim>\<open>new Map(availabilityData.map(item => [item.userId.toString(), item]))\<close>: the
  entries are set one after the other.\<close>

definition conflictMap :: "availability_item list \<Rightarrow> (objectId \<rightharpoonup> availability_item)" where
  "conflictMap items = foldl (\<lambda>mp item. mp(userId item \<mapsto> item)) Map.empty items"

definition fullAvailability ::
    "database \<Rightarrow> objectId list \<Rightarrow> date \<Rightarrow> date \<Rightarrow> objectId option \<Rightarrow> availability_item list" where
  "fullAvailability db participants' startTime' endTime' excludeMeetingId =
     map (\<lambda>participant.
            case conflictMap (availabilityData db participants' startTime' endTime' excludeMeetingId)
                   (user_id participant) of
              Some conflict \<Rightarrow> conflict
            | None \<Rightarrow> \<lparr>userId = user_id participant,
                        item_name = name participant,
                        item_email = email participant,
                        conflicts = [],
                        conflictCount = 0,
                        highPriorityConflicts = 0,
                        availability = ''available''\<rparr>)
       (allParticipants db participants')"

definition canSchedule :: "availability_item list \<Rightarrow> bool" where
  "canSchedule fullAvail = list_all (\<lambda>p. availability p \<noteq> ''busy'') fullAvail"


subsection \<open>Notions used to state the properties\<close>

text \<open>The overlap rule of the specification for half-open intervals \<open>[s1, e1)\<close> and
  \<open>[s2, e2)\<close>.\<close>

definition spec_overlaps :: "date \<Rightarrow> date \<Rightarrow> date \<Rightarrow> date \<Rightarrow> bool" where
  "spec_overlaps s1 e1 s2 e2 = (s1 < e2 \<and> s2 < e1)"

text \<open>
  The stored meetings that list a participant (the \<^verbatim>\<open>pre('save')\<close> hook of Meeting.js
  adds the organizer to the list), that pass the status filter of the query as it is
  written, and that are not the excluded meeting.
\<close>

definition matched_intervals :: "database \<Rightarrow> objectId option \<Rightarrow> objectId \<Rightarrow> meeting list" where
  "matched_intervals db x k =
     filter (\<lambda>m. k \<in> user ` set (participants m)
                 \<and> status m \<in> {''scheduled'', ''in_progress''} \<and> not_excluded x m)
       (meetings db)"

text \<open>
  The busy intervals of a participant: the stored meetings that list the participant,
  that are scheduled or in progress (\<^verbatim>\<open>in-progress\<close> in the schema of Meeting.js), and
  that are not the excluded meeting.
\<close>

definition busy_intervals :: "database \<Rightarrow> objectId option \<Rightarrow> objectId \<Rightarrow> meeting list" where
  "busy_intervals db x k =
     filter (\<lambda>m. k \<in> user ` set (participants m)
                 \<and> status m \<in> {''scheduled'', ''in-progress''} \<and> not_excluded x m)
       (meetings db)"

text \<open>Those of the busy intervals of a participant that overlap the window \<open>[s, e)\<close>
  by the rule of the specification.\<close>

definition overlapping_intervals ::
    "database \<Rightarrow> date \<Rightarrow> date \<Rightarrow> objectId option \<Rightarrow> objectId \<Rightarrow> meeting list" where
  "overlapping_intervals db s e x k =
     filter (\<lambda>m. spec_overlaps s e (startTime m) (endTime m)) (busy_intervals db x k)"

text \<open>The documents between \<^verbatim>\<open>$unwind\<close> and \<^verbatim>\<open>$group\<close>, as pairs of group key
  and meeting.\<close>

definition keyed_docs :: "user list \<Rightarrow> meeting list \<Rightarrow> (objectId option \<times> meeting) list" where
  "keyed_docs us ms = map (\<lambda>(m, info). (map_option user_id info, m))
     (unwind_participantInfo (lookup_participantInfo us ms))"

section \<open>Slot scorer\<close>

text \<open>\<^verbatim>\<open>calculateAdvancedTimeSlotScore(startTime, conflictScore, preferences)\<close> of
  smartCalendarService.js: one assignment of the source per binding.\<close>

definition calculateAdvancedTimeSlotScore :: "date \<Rightarrow> int \<Rightarrow> preferences \<Rightarrow> int" where
  "calculateAdvancedTimeSlotScore startTime' conflictScore prefs =
     (let score = 100;
          hour = hour_of startTime';
          dayOfWeek = day_of startTime';
          score = (if hour \<ge> 10 \<and> hour \<le> 11 then score + 25 else score);
          score = (if hour \<ge> 14 \<and> hour \<le> 15 then score + 20 else score);
          score = (if hour = 9 \<or> hour = 16 then score + 10 else score);
          score = (if hour < 9 \<or> hour > 16 then score - 40 else score);
          score = (if dayOfWeek \<in> set [2, 3, 4] then score + 15 else score);
          score = (if dayOfWeek \<in> set [1, 5] then score + 8 else score);
          score = (if dayOfWeek \<in> set [0, 6] then score - 50 else score);
          score = score - conflictScore * 20;
          score = (if preferMorning prefs \<and> hour < 12 then score + 15 else score);
          score = (if preferAfternoon prefs \<and> hour \<ge> 12 then score + 15 else score);
          score = (if avoidMondays prefs \<and> dayOfWeek = 1 then score - 25 else score);
          score = (if avoidFridays prefs \<and> dayOfWeek = 5 then score - 25 else score)
      in max 0 score)"

subsection \<open>The scoring rule as the specification words it\<close>

definition spec_hour_term :: "int \<Rightarrow> int" where
  "spec_hour_term h =
     (if h = 10 \<or> h = 11 then 25 else 0) + (if h = 14 \<or> h = 15 then 20 else 0)
     + (if h = 9 \<or> h = 16 then 10 else 0) - (if h < 9 \<or> h > 16 then 40 else 0)"

definition spec_day_term :: "int \<Rightarrow> int" where
  "spec_day_term d =
     (if d = 2 \<or> d = 3 \<or> d = 4 then 15 else 0) + (if d = 1 \<or> d = 5 then 8 else 0)
     - (if d = 0 \<or> d = 6 then 50 else 0)"

definition spec_preference_term :: "preferences \<Rightarrow> int \<Rightarrow> int \<Rightarrow> int" where
  "spec_preference_term prefs h d =
     (if preferMorning prefs \<and> h < 12 then 15 else 0)
     + (if preferAfternoon prefs \<and> h \<ge> 12 then 15 else 0)
     - (if avoidMondays prefs \<and> d = 1 then 25 else 0)
     - (if avoidFridays prefs \<and> d = 5 then 25 else 0)"

definition spec_score :: "int \<Rightarrow> int \<Rightarrow> int \<Rightarrow> preferences \<Rightarrow> int" where
  "spec_score h d conflictCount' prefs =
     max 0 (100 + spec_hour_term h + spec_day_term d - conflictCount' * 20
            + spec_preference_term prefs h d)"

section \<open>Slot candidate generator\<close>

text \<open>
  Both generators of smartCalendarService.js run
  \<^verbatim>\<open>for (let hour = start; hour <= end - Math.ceil(duration / 60); hour += 0.5)\<close>.
  The loop variable is counted in half hours here (\<open>h2\<close> is twice \<^verbatim>\<open>hour\<close>), so that
  it stays an integer; hours and durations are whole numbers.
\<close>

definition ceil_hours :: "int \<Rightarrow> int" where
  "ceil_hours duration = - ((- duration) div 60)"

function half_hours :: "int \<Rightarrow> int \<Rightarrow> int list" where
  "half_hours h2 limit2 = (if h2 \<le> limit2 then h2 # half_hours (h2 + 1) limit2 else [])"
  by pat_completeness auto
termination
  by (relation "measure (\<lambda>(h2, limit2). nat (limit2 + 1 - h2))") auto

declare half_hours.simps [simp del]

text \<open>\<^verbatim>\<open>Math.floor(hour)\<close> and \<^verbatim>\<open>(hour % 1) * 60\<close>; the remainder of JavaScript has
  the sign of the dividend.\<close>

definition floor_hour :: "int \<Rightarrow> int" where
  "floor_hour h2 = h2 div 2"

definition minute_part :: "int \<Rightarrow> int" where
  "minute_part h2 = (if 0 \<le> h2 then h2 mod 2 else - ((- h2) mod 2)) * 30"

definition slot_start :: "date \<Rightarrow> int \<Rightarrow> date" where
  "slot_start currentDate h2 = set_minute (set_hour currentDate (floor_hour h2)) (minute_part h2)"

definition default_workingHours :: workingHours where
  "default_workingHours = \<lparr>wh_start = 9, wh_end = 17\<rparr>"

subsection \<open>\<^verbatim>\<open>generateOptimalTimeSlots\<close>\<close>

text \<open>A row of \<^verbatim>\<open>conflictData\<close>; the date string \<^verbatim>\<open>YYYY-MM-DD\<close> is represented by the
  number of the day since 1970-01-01.\<close>

record conflict_datum =
  cd_date :: int
  cd_hour :: int
  cd_conflictScore :: int

definition format_date :: "date \<Rightarrow> int" where
  "format_date t = t div msPerDay"

definition slot_conflictMap :: "conflict_datum list \<Rightarrow> (int \<times> int \<rightharpoonup> int)" where
  "slot_conflictMap conflictData =
     foldl (\<lambda>mp c. mp((cd_date c, cd_hour c) \<mapsto> cd_conflictScore c)) Map.empty conflictData"

record slot =
  slot_startTime :: date
  slot_endTime :: date
  score :: int
  conflictLevel :: string
  reasoning :: string

fun join :: "string \<Rightarrow> string list \<Rightarrow> string" where
  "join sep [] = []"
| "join sep [x] = x"
| "join sep (x # y # ys) = x @ sep @ join sep (y # ys)"

definition generateAdvancedSlotReasoning :: "date \<Rightarrow> int \<Rightarrow> int \<Rightarrow> string" where
  "generateAdvancedSlotReasoning startTime' conflictScore score' =
     (let hour = hour_of startTime';
          reasons = [];
          reasons = (if hour \<ge> 10 \<and> hour \<le> 11 then reasons @ [''Peak productivity time'']
                     else reasons);
          reasons = (if hour \<ge> 14 \<and> hour \<le> 15 then reasons @ [''Post-lunch energy'']
                     else reasons);
          reasons = (if day_of startTime' \<in> set [2, 3, 4] then reasons @ [''Mid-week focus'']
                     else reasons);
          reasons = (if conflictScore = 0 then reasons @ [''No scheduling conflicts'']
                     else reasons);
          reasons = (if conflictScore > 0 then reasons @ [''Minimal conflicts''] else reasons);
          reasons = (if score' > 80 then reasons @ [''Highly recommended''] else reasons)
      in if join '', '' reasons = [] then ''Standard availability'' else join '', '' reasons)"

text \<open>The body of the inner loop, for one value of \<^verbatim>\<open>hour\<close>.\<close>

definition make_slot ::
    "date \<Rightarrow> int \<Rightarrow> int \<Rightarrow> (int \<times> int \<rightharpoonup> int) \<Rightarrow> preferences \<Rightarrow> slot" where
  "make_slot currentDate duration h2 cmap prefs =
     (let slotStart = slot_start currentDate h2;
          slotEnd = add_minutes slotStart duration;
          dateStr = format_date slotStart;
          conflictScore = (case cmap (dateStr, floor_hour h2) of None \<Rightarrow> 0 | Some c \<Rightarrow> c);
          score' = calculateAdvancedTimeSlotScore slotStart conflictScore prefs
      in \<lparr>slot_startTime = slotStart,
          slot_endTime = slotEnd,
          score = score',
          conflictLevel = (if conflictScore > 0 then ''low'' else ''none''),
          reasoning = generateAdvancedSlotReasoning slotStart conflictScore score'\<rparr>)"

definition day_slots ::
    "date \<Rightarrow> int \<Rightarrow> workingHours \<Rightarrow> (int \<times> int \<rightharpoonup> int) \<Rightarrow> preferences \<Rightarrow> slot list" where
  "day_slots currentDate duration wh cmap prefs =
     map (\<lambda>h2. make_slot currentDate duration h2 cmap prefs)
       (half_hours (2 * wh_start wh) (2 * (wh_end wh - ceil_hours duration)))"

text \<open>The \<^verbatim>\<open>while (currentDate.isBefore(endDate))\<close> loop; the list returned is the
  array \<^verbatim>\<open>slots\<close>, in the order of the pushes.\<close>

function collect_slots ::
    "date \<Rightarrow> date \<Rightarrow> int \<Rightarrow> workingHours \<Rightarrow> (int \<times> int \<rightharpoonup> int) \<Rightarrow> preferences \<Rightarrow> slot list" where
  "collect_slots currentDate endDate duration wh cmap prefs =
     (if currentDate < endDate then
        (if \<not> includeWeekends prefs \<and> (day_of currentDate = 0 \<or> day_of currentDate = 6)
         then collect_slots (add_days currentDate 1) endDate duration wh cmap prefs
         else day_slots currentDate duration wh cmap prefs
              @ collect_slots (add_days currentDate 1) endDate duration wh cmap prefs)
      else [])"
  by pat_completeness auto
termination
  by (relation "measure (\<lambda>(currentDate, endDate, _). nat (endDate - currentDate))")
    (auto simp: add_days_def msPerDay_def)

declare collect_slots.simps [simp del]

definition generateOptimalTimeSlots ::
    "objectId list \<Rightarrow> int \<Rightarrow> date \<Rightarrow> date \<Rightarrow> conflict_datum list \<Rightarrow> preferences \<Rightarrow> slot list" where
  "generateOptimalTimeSlots participants' duration startDate endDate conflictData prefs =
     (let wh = (case workingHours prefs of None \<Rightarrow> default_workingHours | Some w \<Rightarrow> w);
          cmap = slot_conflictMap conflictData;
          slots = collect_slots startDate endDate duration wh cmap prefs
      in sort_key (\<lambda>s. - score s) slots)"


subsection \<open>The report of \<^verbatim>\<open>checkAvailability\<close> and its suggestions\<close>

record requestedTime =
  rt_start :: date
  rt_end :: date
  rt_duration :: int

record summary =
  available :: nat
  busy :: nat
  tentative :: nat
  total :: nat

record suggestion =
  sg_startTime :: date
  sg_endTime :: date
  sg_score :: int
  sg_reason :: string

record availability_report =
  requestedTime :: requestedTime
  report_participants :: "availability_item list"
  summary :: summary
  report_canSchedule :: bool
  suggestions :: "suggestion list"

definition summarize :: "availability_item list \<Rightarrow> summary" where
  "summarize fullAvail =
     \<lparr>available = length (filter (\<lambda>p. availability p = ''available'') fullAvail),
      busy = length (filter (\<lambda>p. availability p = ''busy'') fullAvail),
      tentative = length (filter (\<lambda>p. availability p = ''tentative'') fullAvail),
      total = length fullAvail\<rparr>"

text \<open>\<^verbatim>\<open>calculateTimeSlotScore(startTime, availabilityData)\<close> and
  \<^verbatim>\<open>generateSlotReason\<close> of smartCalendarService.js.\<close>

definition calculateTimeSlotScore :: "date \<Rightarrow> availability_report \<Rightarrow> int" where
  "calculateTimeSlotScore startTime' availabilityData' =
     (let score' = 100;
          hour = hour_of startTime';
          dayOfWeek = day_of startTime';
          score' = (if hour \<ge> 10 \<and> hour \<le> 11 then score' + 20 else score');
          score' = (if hour \<ge> 14 \<and> hour \<le> 15 then score' + 15 else score');
          score' = (if hour < 9 \<or> hour > 16 then score' - 30 else score');
          score' = (if dayOfWeek \<in> set [2, 3, 4] then score' + 10 else score');
          score' = (if dayOfWeek \<in> set [1, 5] then score' + 5 else score');
          score' = (if available (summary availabilityData') = total (summary availabilityData')
                    then score' + 25 else score')
      in max 0 score')"

definition generateSlotReason :: "date \<Rightarrow> availability_report \<Rightarrow> string" where
  "generateSlotReason startTime' availabilityData' =
     (let hour = hour_of startTime';
          reasons = [];
          reasons = (if hour \<ge> 10 \<and> hour \<le> 11 then reasons @ [''Peak productivity hours'']
                     else reasons);
          reasons = (if hour \<ge> 14 \<and> hour \<le> 15 then reasons @ [''Post-lunch focus time'']
                     else reasons);
          reasons = (if available (summary availabilityData') = total (summary availabilityData')
                     then reasons @ [''All participants available''] else reasons)
      in if join '', '' reasons = [] then ''Standard business hours'' else join '', '' reasons)"

text \<open>
  \<^verbatim>\<open>generateTimeSlotSuggestions\<close> visits the working days among the seven days from
  the day of the requested start and, on each, the half hours from 9:00 to
  \<^verbatim>\<open>17 - Math.ceil(duration / 60)\<close>; these are the windows in the order of the visit.
\<close>

definition suggestion_windows :: "date \<Rightarrow> date \<Rightarrow> (date \<times> date) list" where
  "suggestion_windows requestedStart requestedEnd =
     (let duration = diff_minutes requestedEnd requestedStart;
          startDate = startOf_day requestedStart
      in concat (map (\<lambda>day.
           let currentDate = add_days startDate day
           in if day_of currentDate = 0 \<or> day_of currentDate = 6 then []
              else map (\<lambda>h2. let slotStart = slot_start currentDate h2;
                                 slotEnd = add_minutes slotStart duration
                             in (slotStart, slotEnd))
                     (half_hours (2 * 9) (2 * (17 - ceil_hours duration))))
         [0..6]))"

text \<open>
  For every window the function awaits \<^verbatim>\<open>this.checkAvailability(participants,
  slotStart, slotEnd)\<close>. That call is the parameter \<open>check\<close>; it yields \<open>None\<close> when
  it does not return, and then neither does this function.
\<close>

definition generateTimeSlotSuggestions ::
    "(objectId list \<Rightarrow> date \<Rightarrow> date \<Rightarrow> availability_report option)
     \<Rightarrow> objectId list \<Rightarrow> date \<Rightarrow> date \<Rightarrow> suggestion list option" where
  "generateTimeSlotSuggestions check participants' requestedStart requestedEnd =
     (let windows = suggestion_windows requestedStart requestedEnd
      in case those (map (\<lambda>(slotStart, slotEnd). check participants' slotStart slotEnd) windows) of
           None \<Rightarrow> None
         | Some results \<Rightarrow>
             Some (take 5 (sort_key (\<lambda>s. - sg_score s)
               (concat (map (\<lambda>((slotStart, slotEnd), availability').
                          if report_canSchedule availability'
                          then [\<lparr>sg_startTime = slotStart,
                                 sg_endTime = slotEnd,
                                 sg_score = calculateTimeSlotScore slotStart availability',
                                 sg_reason = generateSlotReason slotStart availability'\<rparr>]
                          else [])
                     (zip windows results))))))"

text \<open>
  \<^verbatim>\<open>checkAvailability\<close> and \<^verbatim>\<open>generateTimeSlotSuggestions\<close> call each other. The
  first argument bounds the depth of these calls: \<open>None\<close> stands for a call that has not
  returned within that depth. The operations on the collections are total here, so the
  \<^verbatim>\<open>catch\<close> branch (\<^verbatim>\<open>{success: false, error: 'Failed to check availability'}\<close>) is
  never taken and a returned value is the \<^verbatim>\<open>data\<close> of a successful response.
\<close>

primrec checkAvailability ::
    "nat \<Rightarrow> database \<Rightarrow> objectId list \<Rightarrow> date \<Rightarrow> date \<Rightarrow> objectId option
     \<Rightarrow> availability_report option" where
  "checkAvailability 0 db participants' startTime' endTime' excludeMeetingId = None"
| "checkAvailability (Suc depth) db participants' startTime' endTime' excludeMeetingId =
     (let fullAvail = fullAvailability db participants' startTime' endTime' excludeMeetingId
      in case generateTimeSlotSuggestions (\<lambda>ps s e. checkAvailability depth db ps s e None)
                participants' startTime' endTime' of
           None \<Rightarrow> None
         | Some suggestions' \<Rightarrow>
             Some \<lparr>requestedTime = \<lparr>rt_start = startTime', rt_end = endTime',
                                      rt_duration = diff_minutes endTime' startTime'\<rparr>,
                   report_participants = fullAvail,
                   summary = summarize fullAvail,
                   report_canSchedule = canSchedule fullAvail,
                   suggestions = suggestions'\<rparr>)"


subsection \<open>\<^verbatim>\<open>calculateOptimalTimeSlots\<close> (AI insights service)\<close>

record ai_slot =
  dateTime :: date
  ai_score :: int
  ai_conflicts :: nat
  ai_reasoning :: string

function string_of_nat :: "nat \<Rightarrow> string" where
  "string_of_nat n =
     (if n < 10 then [''0123456789'' ! n]
      else string_of_nat (n div 10) @ [''0123456789'' ! (n mod 10)])"
  by pat_completeness auto
termination
  by (relation "measure id") auto

declare string_of_nat.simps [simp del]

text \<open>\<^verbatim>\<open>calculateTimeSlotScore(hour, dayOfWeek, conflicts, preferences)\<close> and
  \<^verbatim>\<open>getTimeSlotReasoning\<close> of the AI insights service.\<close>

definition ai_calculateTimeSlotScore :: "int \<Rightarrow> int \<Rightarrow> nat \<Rightarrow> preferences \<Rightarrow> int" where
  "ai_calculateTimeSlotScore hour dayOfWeek conflicts' prefs =
     (let score' = 100;
          score' = (if hour \<ge> 10 \<and> hour \<le> 11 then score' + 20 else score');
          score' = (if hour \<ge> 14 \<and> hour \<le> 15 then score' + 15 else score');
          score' = (if hour < 9 \<or> hour > 16 then score' - 30 else score');
          score' = (if dayOfWeek \<in> set [2, 3, 4] then score' + 10 else score');
          score' = (if dayOfWeek \<in> set [1, 5] then score' + 5 else score');
          score' = (if dayOfWeek \<in> set [0, 6] then score' - 50 else score');
          score' = score' - int conflicts' * 25;
          score' = (if avoidEarlyMorning prefs \<and> hour < 10 then score' - 20 else score');
          score' = (if avoidLateMeeting prefs \<and> hour > 15 then score' - 20 else score')
      in max 0 score')"

definition getTimeSlotReasoning :: "int \<Rightarrow> int \<Rightarrow> nat \<Rightarrow> string" where
  "getTimeSlotReasoning hour dayOfWeek conflicts' =
     (let reasons = [];
          reasons = (if hour \<ge> 10 \<and> hour \<le> 11 then reasons @ [''Peak productivity time'']
                     else reasons);
          reasons = (if hour \<ge> 14 \<and> hour \<le> 15 then reasons @ [''Post-lunch energy'']
                     else reasons);
          reasons = (if dayOfWeek \<in> set [2, 3, 4] then reasons @ [''Mid-week focus'']
                     else reasons);
          reasons = (if conflicts' = 0 then reasons @ [''No conflicts''] else reasons);
          reasons = (if conflicts' > 0
                     then reasons @ [string_of_nat conflicts' @ '' potential conflicts'']
                     else reasons)
      in if join '', '' reasons = [] then ''Standard business hours'' else join '', '' reasons)"

text \<open>\<^verbatim>\<open>date.setHours(hour, 0, 0, 0)\<close>, which also changes \<^verbatim>\<open>date\<close> for the rest of
  the loop.\<close>

definition setHours :: "date \<Rightarrow> int \<Rightarrow> date" where
  "setHours t hour = startOf_day t + hour * msPerHour"

text \<open>
  The loop \<^verbatim>\<open>for (let hour = start; hour <= end - (duration / 60); hour++)\<close>; the bound
  is compared in minutes, \<open>limit60\<close> being \<open>60 * end - duration\<close>. A row of
  \<^verbatim>\<open>existingSlots\<close> is the pair of \<^verbatim>\<open>_id.date\<close> and \<^verbatim>\<open>_id.hour\<close>.
\<close>

function ai_hour_loop ::
    "date \<Rightarrow> int \<Rightarrow> int \<Rightarrow> (int \<times> int) list \<Rightarrow> int \<Rightarrow> preferences \<Rightarrow> ai_slot list" where
  "ai_hour_loop date' hour limit60 existingSlots dayOfWeek prefs =
     (if 60 * hour \<le> limit60 then
        (let conflictCount' = length (filter (\<lambda>slot'. fst slot' = format_date date'
                                                  \<and> snd slot' = hour) existingSlots);
             score' = ai_calculateTimeSlotScore hour dayOfWeek conflictCount' prefs;
             date'' = setHours date' hour
         in \<lparr>dateTime = date'', ai_score = score', ai_conflicts = conflictCount',
              ai_reasoning = getTimeSlotReasoning hour dayOfWeek conflictCount'\<rparr>
            # ai_hour_loop date'' (hour + 1) limit60 existingSlots dayOfWeek prefs)
      else [])"
  by pat_completeness auto
termination
  by (relation "measure (\<lambda>(date', hour, limit60, _). nat (limit60 + 60 - 60 * hour))") auto

declare ai_hour_loop.simps [simp del]

definition calculateOptimalTimeSlots ::
    "date \<Rightarrow> (int \<times> int) list \<Rightarrow> int \<Rightarrow> preferences \<Rightarrow> ai_slot list" where
  "calculateOptimalTimeSlots now existingSlots duration prefs =
     (let wh = (case workingHours prefs of None \<Rightarrow> default_workingHours | Some w \<Rightarrow> w);
          preferredDays' = (case preferredDays prefs of None \<Rightarrow> [1, 2, 3, 4, 5] | Some ds \<Rightarrow> ds);
          slots = concat (map (\<lambda>day.
                    let date' = now + day * 24 * 60 * 60 * 1000;
                        dayOfWeek = day_of date'
                    in if dayOfWeek \<in> set preferredDays'
                       then ai_hour_loop date' (wh_start wh) (60 * wh_end wh - duration)
                              existingSlots dayOfWeek prefs
                       else [])
                  [0..13])
      in sort_key (\<lambda>s. - ai_score s) slots)"

subsection \<open>Notions used to state the properties of the generators\<close>

text \<open>A day that the loop of \<^verbatim>\<open>generateOptimalTimeSlots\<close> does not skip.\<close>

definition day_kept :: "preferences \<Rightarrow> date \<Rightarrow> bool" where
  "day_kept prefs t = (includeWeekends prefs \<or> (day_of t \<noteq> 0 \<and> day_of t \<noteq> 6))"

text \<open>The working hours and the preferred days after the defaults.\<close>

definition effective_workingHours :: "preferences \<Rightarrow> workingHours" where
  "effective_workingHours prefs
     = (case workingHours prefs of None \<Rightarrow> default_workingHours | Some w \<Rightarrow> w)"

definition effective_preferredDays :: "preferences \<Rightarrow> int list" where
  "effective_preferredDays prefs
     = (case preferredDays prefs of None \<Rightarrow> [1, 2, 3, 4, 5] | Some ds \<Rightarrow> ds)"

section \<open>Numbers\<close>

text \<open>
  The numbers of JavaScript are IEEE 754 doubles. A finite double is represented by the
  rational number it denotes. An arithmetic operation computes the exact result and rounds
  it to the nearest double, a tie going to the even one of the two neighbours; a double
  has a mantissa of 53 bits. The range of the exponent is not bounded here: the scores,
  their sums and their quotients stay far inside it.
\<close>

text \<open>For \<open>x > 0\<close>, the integer \<open>k\<close> with \<open>2 ^ k \<le> x < 2 ^ (k + 1)\<close>.\<close>

definition floor_log2 :: "rat \<Rightarrow> int" where
  "floor_log2 x =
     (let (p, q) = quotient_of x;
          k = bitlen p - bitlen q
      in if 2 powi k \<le> x then k else k - 1)"

definition round_half_even :: "rat \<Rightarrow> int" where
  "round_half_even y =
     (let f = \<lfloor>y\<rfloor>; d = y - of_int f
      in if d < 1 / 2 then f
         else if 1 / 2 < d then f + 1
         else if even f then f else f + 1)"

definition round_double :: "rat \<Rightarrow> rat" where
  "round_double x =
     (if x = 0 then 0
      else let e = floor_log2 \<bar>x\<bar> - 52
           in of_int (round_half_even (x / 2 powi e)) * 2 powi e)"

definition number_add :: "rat \<Rightarrow> rat \<Rightarrow> rat" where
  "number_add a b = round_double (a + b)"

definition number_sub :: "rat \<Rightarrow> rat \<Rightarrow> rat" where
  "number_sub a b = round_double (a - b)"

definition number_mul :: "rat \<Rightarrow> rat \<Rightarrow> rat" where
  "number_mul a b = round_double (a * b)"

text \<open>The quotient by a divisor other than 0.\<close>

definition number_div :: "rat \<Rightarrow> rat \<Rightarrow> rat" where
  "number_div a b = round_double (a / b)"

text \<open>\<^verbatim>\<open>Math.round\<close>: the nearest integer, a half going upwards.\<close>

definition math_round :: "rat \<Rightarrow> int" where
  "math_round x = \<lfloor>x + 1 / 2\<rfloor>"


section \<open>Confidence of a suggestion set\<close>

text \<open>
  \<^verbatim>\<open>calculateConfidenceScore\<close> of smartCalendarService.js; \<^verbatim>\<open>reduce\<close> is a left
  fold. \<^verbatim>\<open>Math.max(...scores)\<close> passes every score as an argument of one call and
  folds \<^verbatim>\<open>max\<close> over them; an engine accepts a bounded number of arguments, the
  parameter \<open>argumentLimit\<close>, and throws a \<^verbatim>\<open>RangeError\<close> beyond it. The scores are
  integers, which a double holds exactly below \<open>2 ^ 53\<close>.
\<close>

datatype error = RangeError

fun calculateConfidenceScore :: "nat \<Rightarrow> slot list \<Rightarrow> error + int" where
  "calculateConfidenceScore argumentLimit [] = Inr 0"
| "calculateConfidenceScore argumentLimit (s # ss) =
     (let scores = map (\<lambda>s. rat_of_int (score s)) (s # ss);
          avgScore = number_div (foldl (\<lambda>sum' score'. number_add sum' score') 0 scores)
                       (of_nat (length scores))
      in if argumentLimit < length scores then Inl RangeError
         else let maxScore = foldl max (hd scores) (tl scores)
              in Inr (math_round
                   (number_mul (number_mul (number_div avgScore 100) (number_div maxScore 100))
                      100)))"

text \<open>
  \<^verbatim>\<open>calculateSuggestionConfidence\<close> of the AI insights service. It divides by the
  score of the first suggestion; when that score is 0 the result of JavaScript is
  \<^verbatim>\<open>NaN\<close>, which is \<open>None\<close> here.
\<close>

fun calculateSuggestionConfidence :: "ai_slot list \<Rightarrow> int option" where
  "calculateSuggestionConfidence [] = Some 0"
| "calculateSuggestionConfidence (s # ss) =
     (let topScore = rat_of_int (ai_score s);
          avgScore = number_div
                       (foldl (\<lambda>sum' s'. number_add sum' (of_int (ai_score s'))) 0 (s # ss))
                       (of_nat (length (s # ss)))
      in if topScore = 0 then None
         else Some (math_round
                (number_mul
                   (number_mul (number_div topScore 100)
                      (number_sub 1 (number_div (number_sub topScore avgScore) topScore)))
                   100)))"

subsection \<open>The metric as the specification words it\<close>

text \<open>The arithmetic mean of the scores as a double, and their maximum.\<close>

definition mean_score :: "int list \<Rightarrow> rat" where
  "mean_score scores = number_div (of_int (sum_list scores)) (of_nat (length scores))"

definition max_score :: "int list \<Rightarrow> int" where
  "max_score scores = Max (set scores)"

text \<open>\<open>round ((avgScore / 100) * (maxScore / 100) * 100)\<close> in exact arithmetic.\<close>

definition exact_confidence :: "int list \<Rightarrow> int" where
  "exact_confidence scores =
     math_round ((rat_of_int (sum_list scores) / of_nat (length scores) / 100)
                 * (rat_of_int (max_score scores) / 100) * 100)"

section \<open>Conflict resolution strategist\<close>

text \<open>The \<^verbatim>\<open>flexibility\<close> that the \<^verbatim>\<open>$project\<close> stage of
  \<^verbatim>\<open>resolveSchedulingConflicts\<close> computes for a meeting, and the projected document.\<close>

definition flexibility_of :: "meeting \<Rightarrow> string" where
  "flexibility_of m =
     (if (case mtype m of None \<Rightarrow> False | Some t \<Rightarrow> t \<in> set [''standup'', ''check-in'', ''update''])
      then ''high''
      else if priority m = ''low'' then ''medium'' else ''low'')"

record analysed_event =
  ae_title :: string
  ae_startTime :: date
  ae_endTime :: date
  ae_priority :: string
  ae_type :: "string option"
  participantInfo :: "user list"
  flexibility :: string

definition project_analysis :: "user list \<Rightarrow> meeting \<Rightarrow> analysed_event" where
  "project_analysis us m =
     \<lparr>ae_title = title m, ae_startTime = startTime m, ae_endTime = endTime m,
      ae_priority = priority m, ae_type = mtype m,
      participantInfo = lookup_users us (map user (participants m)),
      flexibility = flexibility_of m\<rparr>"

text \<open>The request; \<^verbatim>\<open>duration\<close> is read from the request body and may be absent, in
  which case \<^verbatim>\<open>meetingData.duration > 60\<close> is false.\<close>

record meetingData =
  md_startTime :: date
  md_endTime :: date
  md_participants :: "objectId list"
  md_duration :: "int option"

record strategy =
  strategy_type :: string
  strategy_title :: string
  description :: string
  effort :: string
  impact :: string
  probability :: real

definition generateResolutionStrategies ::
    "availability_report \<Rightarrow> analysed_event list \<Rightarrow> meetingData \<Rightarrow> strategy list" where
  "generateResolutionStrategies conflictData conflictAnalysis meetingData' =
     (let strategies = [];
          strategies = strategies @
            [\<lparr>strategy_type = ''reschedule'',
              strategy_title = ''Find Alternative Time'',
              description =
                ''Suggest optimal alternative times when all participants are available'',
              effort = ''low'', impact = ''high'', probability = 0.9\<rparr>];
          strategies = (if length (report_participants conflictData) > 3 then strategies @
            [\<lparr>strategy_type = ''reduce_participants'',
              strategy_title = ''Optimize Participant List'',
              description = ''Remove non-essential participants to reduce conflicts'',
              effort = ''medium'', impact = ''medium'', probability = 0.7\<rparr>]
            else strategies);
          strategies = (if (case md_duration meetingData' of None \<Rightarrow> False | Some d \<Rightarrow> d > 60)
            then strategies @
            [\<lparr>strategy_type = ''split_meeting'',
              strategy_title = ''Split Into Multiple Sessions'',
              description =
                ''Break into smaller, focused sessions with relevant participants'',
              effort = ''high'', impact = ''medium'', probability = 0.6\<rparr>]
            else strategies);
          flexibleConflicts = filter (\<lambda>c. flexibility c = ''high'') conflictAnalysis;
          strategies = (if length flexibleConflicts > 0 then strategies @
            [\<lparr>strategy_type = ''override_conflicts'',
              strategy_title = ''Override Flexible Meetings'',
              description = ''Move '' @ string_of_nat (length flexibleConflicts)
                @ '' flexible meetings to accommodate this higher priority meeting'',
              effort = ''medium'', impact = ''high'', probability = 0.8\<rparr>]
            else strategies)
      in strategies)"


section \<open>Example data\<close>

text \<open>
  Three users A, B and C on Tuesday 1970-01-06. C has no meeting, A takes part in a meeting of priority
  \<^verbatim>\<open>high\<close> from 14:00 to 15:00, B in a meeting of priority \<^verbatim>\<open>urgent\<close> and
  category \<^verbatim>\<open>standup\<close> from 11:00 to 12:00, and both in a meeting of priority
  \<^verbatim>\<open>low\<close> from 16:00 to 17:00.
\<close>

definition user_A :: user where
  "user_A = \<lparr>user_id = 1, name = ''A'', email = ''a@example.org''\<rparr>"

definition user_B :: user where
  "user_B = \<lparr>user_id = 2, name = ''B'', email = ''b@example.org''\<rparr>"

definition user_C :: user where
  "user_C = \<lparr>user_id = 3, name = ''C'', email = ''c@example.org''\<rparr>"

definition meeting_A :: meeting where
  "meeting_A = \<lparr>meeting_id = 10, title = ''Review'', organizer = 1,
     participants = [\<lparr>user = 1, rsvp = ''accepted''\<rparr>],
     startTime = 482400000, endTime = 486000000, category = ''review'', mtype = None,
     priority = ''high'', status = ''scheduled''\<rparr>"

definition meeting_B :: meeting where
  "meeting_B = \<lparr>meeting_id = 11, title = ''Daily'', organizer = 2,
     participants = [\<lparr>user = 2, rsvp = ''accepted''\<rparr>],
     startTime = 471600000, endTime = 475200000, category = ''standup'', mtype = None,
     priority = ''urgent'', status = ''scheduled''\<rparr>"

definition meeting_AB :: meeting where
  "meeting_AB = \<lparr>meeting_id = 12, title = ''Sync'', organizer = 1,
     participants = [\<lparr>user = 2, rsvp = ''pending''\<rparr>, \<lparr>user = 1, rsvp = ''accepted''\<rparr>],
     startTime = 489600000, endTime = 493200000, category = ''meeting'', mtype = None,
     priority = ''low'', status = ''scheduled''\<rparr>"

definition example_db :: database where
  "example_db = \<lparr>meetings = [meeting_A, meeting_B, meeting_AB], users = [user_A, user_B, user_C]\<rparr>"

text \<open>
  The request of A and B for 9:00 to 18:00 that day, the report that
  \<^verbatim>\<open>checkAvailability\<close> returns for it, and the events that the aggregation of
  \<^verbatim>\<open>resolveSchedulingConflicts\<close> gives for it (the three meetings, in the descending
  order of their priorities as strings).
\<close>

definition example_request :: meetingData where
  "example_request = \<lparr>md_startTime = 464400000, md_endTime = 496800000,
     md_participants = [1, 2], md_duration = Some 540\<rparr>"

definition example_report :: availability_report where
  "example_report = \<lparr>requestedTime = \<lparr>rt_start = 464400000, rt_end = 496800000, rt_duration = 540\<rparr>,
     report_participants = fullAvailability example_db [1, 2] 464400000 496800000 None,
     summary = summarize (fullAvailability example_db [1, 2] 464400000 496800000 None),
     report_canSchedule = canSchedule (fullAvailability example_db [1, 2] 464400000 496800000 None),
     suggestions = []\<rparr>"

definition example_analysis :: "analysed_event list" where
  "example_analysis = map (project_analysis (users example_db)) [meeting_B, meeting_AB, meeting_A]"

text \<open>The same data with one more meeting: C takes part in a meeting of priority
  \<^verbatim>\<open>high\<close> from 10:00 to 11:00 that is in progress.\<close>

definition meeting_C :: meeting where
  "meeting_C = \<lparr>meeting_id = 13, title = ''Workshop'', organizer = 3,
     participants = [\<lparr>user = 3, rsvp = ''accepted''\<rparr>],
     startTime = 468000000, endTime = 471600000, category = ''training'', mtype = None,
     priority = ''high'', status = ''in-progress''\<rparr>"

definition progress_db :: database where
  "progress_db = \<lparr>meetings = [meeting_A, meeting_B, meeting_AB, meeting_C],
     users = [user_A, user_B, user_C]\<rparr>"

text \<open>Suggestions with a given score.\<close>

definition scored :: "int \<Rightarrow> slot" where
  "scored n = \<lparr>slot_startTime = 468000000, slot_endTime = 469800000, score = n,
     conflictLevel = ''none'', reasoning = ''Peak productivity hours''\<rparr>"

definition ai_scored :: "int \<Rightarrow> ai_slot" where
  "ai_scored n = \<lparr>dateTime = 468000000, ai_score = n, ai_conflicts = 0,
     ai_reasoning = ''Peak productivity hours''\<rparr>"

section \<open>Properties of the slot scorer\<close>

lemma if_add_const: "(if P then s + k else s) = s + (if P then k else (0::int))"
  by simp

lemma if_sub_const: "(if P then s - k else s) = s - (if P then k else (0::int))"
  by simp

lemma scorer_refines_spec:
  "calculateAdvancedTimeSlotScore t c prefs = spec_score (hour_of t) (day_of t) c prefs"
proof -
  have h1: "(hour_of t \<ge> 10 \<and> hour_of t \<le> 11) = (hour_of t = 10 \<or> hour_of t = 11)"
    by auto
  have h2: "(hour_of t \<ge> 14 \<and> hour_of t \<le> 15) = (hour_of t = 14 \<or> hour_of t = 15)"
    by auto
  have d1: "(day_of t \<in> set [2, 3, 4]) = (day_of t = 2 \<or> day_of t = 3 \<or> day_of t = 4)"
    and d2: "(day_of t \<in> set [1, 5]) = (day_of t = 1 \<or> day_of t = 5)"
    and d3: "(day_of t \<in> set [0, 6]) = (day_of t = 0 \<or> day_of t = 6)"
    by auto
  show ?thesis
    unfolding calculateAdvancedTimeSlotScore_def spec_score_def spec_hour_term_def
      spec_day_term_def spec_preference_term_def Let_def h1 h2 d1 d2 d3
      if_add_const if_sub_const
    by (simp split del: if_split)
qed

text \<open>
  C4. The score of a slot is 100, plus 25 for a start hour of 10 or 11, plus 20 for 14 or
  15, plus 10 for exactly 9 or 16, minus 40 before 9 or after 16; plus 15 on Tuesday to
  Thursday, plus 8 on Monday and Friday, minus 50 on Saturday and Sunday; minus 20 per
  unit of conflict score; plus or minus the four preference adjustments; and the result
  is clamped below at 0, so it is never negative. A Tuesday slot starting in the hour of
  10 (such as 10:30) with no conflicts and no preferences scores exactly 140.
\<close>

theorem C4_slot_score:
  "calculateAdvancedTimeSlotScore t c prefs = spec_score (hour_of t) (day_of t) c prefs
   \<and> 0 \<le> calculateAdvancedTimeSlotScore t c prefs
   \<and> (day_of t = 2 \<and> hour_of t = 10 \<longrightarrow>
        calculateAdvancedTimeSlotScore t 0 no_preferences = 140)"
proof -
  have refine: "\<And>c prefs.
      calculateAdvancedTimeSlotScore t c prefs = spec_score (hour_of t) (day_of t) c prefs"
    by (rule scorer_refines_spec)
  have nonneg: "0 \<le> calculateAdvancedTimeSlotScore t c prefs"
    unfolding refine spec_score_def by simp
  have tuesday: "day_of t = 2 \<and> hour_of t = 10 \<longrightarrow>
      calculateAdvancedTimeSlotScore t 0 no_preferences = 140"
    unfolding refine
    by (simp add: spec_score_def spec_hour_term_def spec_day_term_def
        spec_preference_term_def no_preferences_def)
  from refine nonneg tuesday show ?thesis by blast
qed

text \<open>Tuesday 1970-01-06, 10:30 UTC.\<close>

theorem C4_slot_score_witness:
  "day_of 469800000 = 2 \<and> hour_of 469800000 = 10 \<and> minute_of 469800000 = 30
   \<and> calculateAdvancedTimeSlotScore 469800000 0 no_preferences = 140"
proof -
  have d: "day_of 469800000 = 2" by (simp add: day_of_def msPerDay_def)
  have h: "hour_of 469800000 = 10" by (simp add: hour_of_def msPerDay_def msPerHour_def)
  have m: "minute_of 469800000 = 30"
    by (simp add: minute_of_def msPerHour_def msPerMinute_def)
  from C4_slot_score [of 469800000 0 no_preferences] d h m show ?thesis by simp
qed

section \<open>Properties of the query documents\<close>

lemma checkAvailability_match_eq:
  "checkAvailability_match ps s e x =
     [(''$or'', Or [[(''startTime'', Lte (Date s)), (''endTime'', Gt (Date s))],
                    [(''startTime'', Lt (Date e)), (''endTime'', Gte (Date e))],
                    [(''startTime'', Gte (Date s)), (''endTime'', Lte (Date e))]]),
      (''status'', Field (In [Str ''scheduled'', Str ''in_progress'']))]
     @ (case x of None \<Rightarrow> [] | Some i \<Rightarrow> [(''_id'', Field (Ne (Id i)))])"
  by (simp add: checkAvailability_match_def js_object_def split: option.splits)

lemma detectConflicts_match_eq:
  "detectConflicts_match org ps s e =
     [(''$or'', Or [[(''startTime'', Lte (Date s)), (''endTime'', Gt (Date s))],
                    [(''startTime'', Lt (Date e)), (''endTime'', Gte (Date e))],
                    [(''startTime'', Gte (Date s)), (''endTime'', Lte (Date e))]]),
      (''status'', Field (In [Str ''scheduled'', Str ''in_progress'']))]"
  by (simp add: detectConflicts_match_def js_object_def)

lemma matches_checkAvailability_match:
  "matches (checkAvailability_match ps s e x) m
   = (time_clause s e m \<and> status m \<in> {''scheduled'', ''in_progress''} \<and> not_excluded x m)"
  unfolding checkAvailability_match_eq
  by (auto simp add: matches_def matches_fields_def field_values_def time_clause_def
      window_clause_def not_excluded_def split: option.splits)

lemma matches_detectConflicts_match:
  "matches (detectConflicts_match org ps s e) m
   = (time_clause s e m \<and> status m \<in> {''scheduled'', ''in_progress''})"
  unfolding detectConflicts_match_eq
  by (auto simp add: matches_def matches_fields_def field_values_def time_clause_def
      window_clause_def)

lemma window_clause_overlaps:
  "s1 < e1 \<Longrightarrow> s2 < e2 \<Longrightarrow> window_clause s1 e1 s2 e2 = spec_overlaps s1 e1 s2 e2"
  unfolding window_clause_def spec_overlaps_def by auto

section \<open>Properties of the aggregation pipeline\<close>

lemma group_docs_sound:
  "(k, vs) \<in> set (group_docs kvs) \<Longrightarrow> vs \<noteq> [] \<and> vs = map snd (filter (\<lambda>kv. fst kv = k) kvs)"
proof (induction kvs arbitrary: k vs rule: group_docs.induct)
  case 1
  then show ?case by simp
next
  case (2 k' v kvs)
  show ?case
  proof (cases "(k, vs) = (k', v # map snd (filter (\<lambda>kv. fst kv = k') kvs))")
    case True
    then show ?thesis by simp
  next
    case False
    with "2.prems" have mem: "(k, vs) \<in> set (group_docs (filter (\<lambda>kv. fst kv \<noteq> k') kvs))"
      by auto
    from "2.IH" [OF mem] have ne: "vs \<noteq> []"
      and eq: "vs = map snd (filter (\<lambda>kv. fst kv = k) (filter (\<lambda>kv. fst kv \<noteq> k') kvs))"
      by blast+
    from ne eq have "k \<noteq> k'" by (auto simp: filter_empty_conv)
    then have "filter (\<lambda>kv. fst kv = k) (filter (\<lambda>kv. fst kv \<noteq> k') kvs)
        = filter (\<lambda>kv. fst kv = k) kvs"
      by (auto intro: filter_cong)
    with ne eq \<open>k \<noteq> k'\<close> show ?thesis by auto
  qed
qed

lemma group_docs_complete:
  "k \<in> fst ` set kvs \<Longrightarrow> \<exists>vs. (k, vs) \<in> set (group_docs kvs)"
proof (induction kvs rule: group_docs.induct)
  case 1
  then show ?case by simp
next
  case (2 k' v kvs)
  show ?case
  proof (cases "k = k'")
    case True
    then show ?thesis by auto
  next
    case False
    with "2.prems" have "k \<in> fst ` set (filter (\<lambda>kv. fst kv \<noteq> k') kvs)" by force
    from "2.IH" [OF this] show ?thesis by auto
  qed
qed

lemma conflictMap_snoc:
  "conflictMap (items @ [item]) = (conflictMap items)(userId item \<mapsto> item)"
  by (simp add: conflictMap_def)

lemma conflictMap_Some:
  "conflictMap items k = Some item \<Longrightarrow> item \<in> set items \<and> userId item = k"
  by (induction items rule: rev_induct) (auto simp: conflictMap_snoc conflictMap_def split: if_splits)

lemma conflictMap_None:
  "(conflictMap items k = None) = (k \<notin> userId ` set items)"
  by (induction items rule: rev_induct) (auto simp: conflictMap_snoc conflictMap_def)

lemma sum_list_ones: "sum_list (map (\<lambda>m. Suc 0) ms) = length ms"
  by (induction ms) simp_all

lemma sum_list_indicator:
  "sum_list (map (\<lambda>m. if P m then (1::nat) else 0) ms) = length (filter P ms)"
  by (induction ms) simp_all

lemma unwind_Nil: "unwind_participantInfo (lookup_participantInfo us []) = []"
  by (simp add: unwind_participantInfo_def lookup_participantInfo_def)

lemma unwind_Cons:
  "unwind_participantInfo (lookup_participantInfo us (a # ms))
   = (if lookup_users us (map user (participants a)) = [] then [(a, None)]
      else map (\<lambda>u. (a, Some u)) (lookup_users us (map user (participants a))))
     @ unwind_participantInfo (lookup_participantInfo us ms)"
  by (simp add: unwind_participantInfo_def lookup_participantInfo_def)

lemma unwind_Some:
  "((m, Some u) \<in> set (unwind_participantInfo (lookup_participantInfo us ms)))
   = (m \<in> set ms \<and> u \<in> set us \<and> user_id u \<in> user ` set (participants m))"
  by (induction ms) (auto simp: unwind_Nil unwind_Cons lookup_users_def filter_empty_conv)

lemma keyed_docs_Some:
  "((Some k, m) \<in> set (keyed_docs us ms))
   = (m \<in> set ms \<and> k \<in> user ` set (participants m) \<and> k \<in> user_id ` set us)"
proof -
  have "((Some k, m) \<in> set (keyed_docs us ms))
      = (\<exists>u. (m, Some u) \<in> set (unwind_participantInfo (lookup_participantInfo us ms))
             \<and> user_id u = k)"
  proof
    assume "(Some k, m) \<in> set (keyed_docs us ms)"
    then obtain m' info where mem: "(m', info) \<in> set (unwind_participantInfo (lookup_participantInfo us ms))"
      and eq: "(Some k, m) = (map_option user_id info, m')"
      unfolding keyed_docs_def by auto
    from eq obtain u where "info = Some u" "user_id u = k" "m' = m" by (cases info) auto
    with mem show "\<exists>u. (m, Some u) \<in> set (unwind_participantInfo (lookup_participantInfo us ms))
             \<and> user_id u = k" by blast
  next
    assume "\<exists>u. (m, Some u) \<in> set (unwind_participantInfo (lookup_participantInfo us ms))
             \<and> user_id u = k"
    then obtain u where "(m, Some u) \<in> set (unwind_participantInfo (lookup_participantInfo us ms))"
      "user_id u = k" by blast
    then show "(Some k, m) \<in> set (keyed_docs us ms)"
      unfolding keyed_docs_def by force
  qed
  also have "\<dots> = (m \<in> set ms \<and> k \<in> user ` set (participants m) \<and> k \<in> user_id ` set us)"
    unfolding unwind_Some
  proof (intro iffI)
    assume "\<exists>u. (m \<in> set ms \<and> u \<in> set us \<and> user_id u \<in> user ` set (participants m))
        \<and> user_id u = k"
    then show "m \<in> set ms \<and> k \<in> user ` set (participants m) \<and> k \<in> user_id ` set us"
      by blast
  next
    assume a: "m \<in> set ms \<and> k \<in> user ` set (participants m) \<and> k \<in> user_id ` set us"
    then obtain u where "u \<in> set us" "user_id u = k" by auto
    with a show "\<exists>u. (m \<in> set ms \<and> u \<in> set us \<and> user_id u \<in> user ` set (participants m))
        \<and> user_id u = k" by blast
  qed
  finally show ?thesis .
qed

lemma availabilityData_item:
  assumes "item \<in> set (availabilityData db ps s e x)"
  defines "q \<equiv> checkAvailability_match ps s e x"
  shows "\<exists>ms. ms \<noteq> []
     \<and> set ms = {m \<in> set (meetings db). matches q m \<and> userId item \<in> user ` set (participants m)}
     \<and> conflicts item = map conflict_of ms
     \<and> conflictCount item = length ms
     \<and> highPriorityConflicts item = length (filter (\<lambda>m. priority m = ''high'') ms)
     \<and> availability item = (if highPriorityConflicts item > 0 then ''busy'' else ''tentative'')
     \<and> userId item \<in> user_id ` set (users db)"
proof -
  let ?kd = "keyed_docs (users db) (match_stage q (meetings db))"
  from assms(1) obtain i g u where
    gu: "(i, g, u) \<in> set (lookup_unwind_userInfo (users db) (group_stage
           (unwind_participantInfo (lookup_participantInfo (users db) (match_stage q (meetings db))))))"
    and item: "item = \<lparr>userId = i, item_name = name u, item_email = email u,
             conflicts = g_conflicts g, conflictCount = g_conflictCount g,
             highPriorityConflicts = g_highPriorityConflicts g,
             availability = (if g_conflictCount g = 0 then ''available''
                else if g_highPriorityConflicts g > 0 then ''busy'' else ''tentative'')\<rparr>"
    unfolding availabilityData_def project_stage_def q_def by auto
  from gu have gid: "g_id g = Some i" and u: "u \<in> set (users db)" "user_id u = i"
    and g: "g \<in> set (group_stage
           (unwind_participantInfo (lookup_participantInfo (users db) (match_stage q (meetings db)))))"
    unfolding lookup_unwind_userInfo_def by (auto split: option.splits)
  from g obtain k ms where kms: "(k, ms) \<in> set (group_docs ?kd)"
    and gdef: "g = \<lparr>g_id = k, g_conflicts = map conflict_of ms,
                      g_conflictCount = sum_list (map (\<lambda>m. 1) ms),
                      g_highPriorityConflicts =
                        sum_list (map (\<lambda>m. if priority m = ''high'' then 1 else 0) ms)\<rparr>"
    unfolding group_stage_def keyed_docs_def by auto
  from gdef gid have k: "k = Some i" by simp
  from group_docs_sound [OF kms] have ne: "ms \<noteq> []"
    and ms: "ms = map snd (filter (\<lambda>kv. fst kv = k) ?kd)" by blast+
  have "set ms = {m. (Some i, m) \<in> set ?kd}"
    unfolding ms k by force
  also have "\<dots> = {m \<in> set (meetings db). matches q m \<and> i \<in> user ` set (participants m)}"
    using u by (auto simp: keyed_docs_Some match_stage_def)
  finally have setms: "set ms = {m \<in> set (meetings db). matches q m \<and> i \<in> user ` set (participants m)}" .
  have uid: "userId item = i" using item by simp
  have c: "conflicts item = map conflict_of ms" by (simp add: item gdef)
  have n: "conflictCount item = length ms" by (simp add: item gdef sum_list_ones)
  have h: "highPriorityConflicts item = length (filter (\<lambda>m. priority m = ''high'') ms)"
    by (simp add: item gdef sum_list_indicator)
  have a: "availability item
      = (if highPriorityConflicts item > 0 then ''busy'' else ''tentative'')"
    using ne by (simp add: item gdef sum_list_ones)
  have r: "userId item \<in> user_id ` set (users db)" using u uid by blast
  from ne setms c n h a r show ?thesis unfolding uid by blast
qed

lemma availabilityData_has_item:
  assumes "k \<in> user_id ` set (users db)"
    and "m \<in> set (meetings db)" "matches (checkAvailability_match ps s e x) m"
    and "k \<in> user ` set (participants m)"
  shows "k \<in> userId ` set (availabilityData db ps s e x)"
proof -
  let ?q = "checkAvailability_match ps s e x"
  let ?kd = "keyed_docs (users db) (match_stage ?q (meetings db))"
  from assms have "(Some k, m) \<in> set ?kd"
    by (simp add: keyed_docs_Some match_stage_def)
  then have "Some k \<in> fst ` set ?kd" by force
  from group_docs_complete [OF this] obtain ms where kms: "(Some k, ms) \<in> set (group_docs ?kd)" ..
  from assms(1) obtain u where u: "u \<in> set (users db)" "user_id u = k" by auto
  define g where "g = \<lparr>g_id = Some k, g_conflicts = map conflict_of ms,
                      g_conflictCount = sum_list (map (\<lambda>m. 1) ms),
                      g_highPriorityConflicts =
                        sum_list (map (\<lambda>m. if priority m = ''high'' then 1 else 0) ms)\<rparr>"
  have "g \<in> set (group_stage
           (unwind_participantInfo (lookup_participantInfo (users db) (match_stage ?q (meetings db)))))"
    unfolding group_stage_def g_def using kms unfolding keyed_docs_def by force
  then have "(k, g, u) \<in> set (lookup_unwind_userInfo (users db) (group_stage
           (unwind_participantInfo (lookup_participantInfo (users db) (match_stage ?q (meetings db))))))"
    unfolding lookup_unwind_userInfo_def using u by (force simp: g_def)
  then show ?thesis
    unfolding availabilityData_def project_stage_def
    by (force simp: g_def)
qed


lemma fullAvailability_row:
  assumes "r \<in> set (fullAvailability db ps s e x)"
  defines "B \<equiv> {m \<in> set (matched_intervals db x (userId r)). time_clause s e m}"
  shows "userId r \<in> user_id ` set (users db) \<and> userId r \<in> set ps
     \<and> set (conflicts r) = conflict_of ` B
     \<and> availability r = (if B = {} then ''available''
          else if \<exists>m\<in>B. priority m = ''high'' then ''busy'' else ''tentative'')"
proof -
  let ?AD = "availabilityData db ps s e x"
  let ?q = "checkAvailability_match ps s e x"
  from assms(1) obtain u where u: "u \<in> set (users db)" "user_id u \<in> set ps"
    and r: "r = (case conflictMap ?AD (user_id u) of
              Some conflict \<Rightarrow> conflict
            | None \<Rightarrow> \<lparr>userId = user_id u, item_name = name u, item_email = email u,
                        conflicts = [], conflictCount = 0, highPriorityConflicts = 0,
                        availability = ''available''\<rparr>)"
    unfolding fullAvailability_def allParticipants_def by auto
  have Bq: "\<And>k. {m \<in> set (matched_intervals db x k). time_clause s e m}
      = {m \<in> set (meetings db). matches ?q m \<and> k \<in> user ` set (participants m)}"
    unfolding matched_intervals_def matches_checkAvailability_match by auto
  show ?thesis
  proof (cases "conflictMap ?AD (user_id u)")
    case None
    then have r': "r = \<lparr>userId = user_id u, item_name = name u, item_email = email u,
                        conflicts = [], conflictCount = 0, highPriorityConflicts = 0,
                        availability = ''available''\<rparr>" using r by simp
    have "B = {}"
    proof (rule ccontr)
      assume "B \<noteq> {}"
      then obtain m where "m \<in> B" by blast
      then have "m \<in> set (meetings db)" "matches ?q m" "user_id u \<in> user ` set (participants m)"
        unfolding B_def Bq r' by simp_all
      from availabilityData_has_item [OF _ this] u
      have "user_id u \<in> userId ` set ?AD" by blast
      with None show False by (simp add: conflictMap_None)
    qed
    with u show ?thesis by (simp add: r')
  next
    case (Some item)
    then have ri: "r = item" using r by simp
    from conflictMap_Some [OF Some] have item: "item \<in> set ?AD" and uid: "userId item = user_id u"
      by simp_all
    from availabilityData_item [OF item] obtain ms where ne: "ms \<noteq> []"
      and setms: "set ms = {m \<in> set (meetings db). matches ?q m
                      \<and> userId item \<in> user ` set (participants m)}"
      and c: "conflicts item = map conflict_of ms"
      and h: "highPriorityConflicts item = length (filter (\<lambda>m. priority m = ''high'') ms)"
      and a: "availability item
                = (if highPriorityConflicts item > 0 then ''busy'' else ''tentative'')"
      by blast
    have B: "B = set ms" unfolding B_def Bq ri setms ..
    from ne have Bne: "B \<noteq> {}" unfolding B by simp
    have hp: "(highPriorityConflicts item > 0) = (\<exists>m\<in>B. priority m = ''high'')"
      unfolding h B by (auto simp: filter_empty_conv)
    from u uid Bne show ?thesis
      unfolding ri by (simp add: c a hp B)
  qed
qed

lemma fullAvailability_ids:
  "map userId (fullAvailability db ps s e x) = map user_id (allParticipants db ps)"
  unfolding fullAvailability_def
  by (auto split: option.splits dest: conflictMap_Some)



lemma conflict_reported_iff:
  assumes "m \<in> set (meetings db)"
    and "status m \<in> {''scheduled'', ''in_progress''}" and "not_excluded x m"
    and "u \<in> set (users db)" and "user_id u \<in> set ps"
    and "user_id u \<in> user ` set (participants m)"
  shows "(\<exists>r\<in>set (fullAvailability db ps s e x).
             userId r = user_id u \<and> conflict_of m \<in> set (conflicts r))
         = time_clause s e m"
proof
  assume "\<exists>r\<in>set (fullAvailability db ps s e x).
             userId r = user_id u \<and> conflict_of m \<in> set (conflicts r)"
  then obtain r where r: "r \<in> set (fullAvailability db ps s e x)"
    and "conflict_of m \<in> set (conflicts r)" by blast
  with fullAvailability_row [OF r] obtain m' where "time_clause s e m'"
    and "conflict_of m' = conflict_of m" by auto
  then show "time_clause s e m"
    by (simp add: time_clause_def conflict_of_def)
next
  assume tc: "time_clause s e m"
  have busy: "m \<in> set (matched_intervals db x (user_id u))"
    using assms(1,2,3,6) by (simp add: matched_intervals_def)
  from assms(4,5) have "user_id u \<in> set (map user_id (allParticipants db ps))"
    by (simp add: allParticipants_def)
  then have "user_id u \<in> set (map userId (fullAvailability db ps s e x))"
    by (simp only: fullAvailability_ids)
  then obtain r where r: "r \<in> set (fullAvailability db ps s e x)"
    and uid: "userId r = user_id u" by auto
  from tc busy have "m \<in> {m \<in> set (matched_intervals db x (userId r)). time_clause s e m}"
    by (simp add: uid)
  with fullAvailability_row [OF r] have "conflict_of m \<in> set (conflicts r)" by blast
  with r uid show "\<exists>r\<in>set (fullAvailability db ps s e x).
             userId r = user_id u \<and> conflict_of m \<in> set (conflicts r)" by blast
qed

lemma busy_intervals_matched:
  assumes "\<forall>m\<in>set (meetings db).
      status m \<in> {''scheduled'', ''completed'', ''cancelled'', ''postponed''}"
  shows "busy_intervals db x k = matched_intervals db x k"
  unfolding busy_intervals_def matched_intervals_def
  using assms by (intro filter_cong) auto

lemma overlapping_intervals_set:
  assumes "s < e"
    and "\<forall>m\<in>set (meetings db). startTime m < endTime m
          \<and> status m \<in> {''scheduled'', ''completed'', ''cancelled'', ''postponed''}"
  shows "set (overlapping_intervals db s e x k)
       = {m \<in> set (matched_intervals db x k). time_clause s e m}"
proof -
  from assms(2) have st: "\<forall>m\<in>set (meetings db).
      status m \<in> {''scheduled'', ''completed'', ''cancelled'', ''postponed''}" by blast
  have "\<And>m. m \<in> set (matched_intervals db x k) \<Longrightarrow>
      spec_overlaps s e (startTime m) (endTime m) = time_clause s e m"
  proof -
    fix m assume "m \<in> set (matched_intervals db x k)"
    then have "m \<in> set (meetings db)" by (simp add: matched_intervals_def)
    with assms(2) have "startTime m < endTime m" by blast
    from window_clause_overlaps [OF assms(1) this] show
      "spec_overlaps s e (startTime m) (endTime m) = time_clause s e m"
      by (simp add: time_clause_def)
  qed
  then show ?thesis
    unfolding overlapping_intervals_def busy_intervals_matched [OF st] by auto
qed

lemma fullAvailability_distinct_ids:
  assumes "distinct (map user_id (users db))" and "distinct ps"
    and "set ps \<subseteq> user_id ` set (users db)"
  shows "distinct (map userId (fullAvailability db ps s e x))
       \<and> set (map userId (fullAvailability db ps s e x)) = set ps
       \<and> length (fullAvailability db ps s e x) = length ps"
proof -
  let ?ids = "map userId (fullAvailability db ps s e x)"
  have ids: "?ids = map user_id (filter (\<lambda>u. user_id u \<in> set ps) (users db))"
    by (simp add: fullAvailability_ids allParticipants_def)
  have d: "distinct ?ids" unfolding ids using assms(1) by (rule distinct_map_filter)
  have st: "set ?ids = set ps" unfolding ids using assms(3) by auto
  have "length ?ids = card (set ?ids)" by (rule distinct_card [OF d, symmetric])
  also have "\<dots> = length ps" unfolding st by (rule distinct_card [OF assms(2)])
  finally have "length (fullAvailability db ps s e x) = length ps" by simp
  with d st show ?thesis by blast
qed

lemma canSchedule_iff:
  "canSchedule fullAvail = (\<not> (\<exists>p\<in>set fullAvail. availability p = ''busy''))"
  by (simp add: canSchedule_def list_all_iff)

lemma fullAvailability_clean:
  assumes "r \<in> set (fullAvailability db ps s e x)"
    and "{m \<in> set (matched_intervals db x (userId r)). time_clause s e m} = {}"
  shows "availability r = ''available'' \<and> conflicts r = []"
  using fullAvailability_row [OF assms(1)] unfolding assms(2) by simp

lemma fullAvailability_no_participants: "fullAvailability db [] s e x = []"
  by (simp add: fullAvailability_def allParticipants_def)

section \<open>When \<^verbatim>\<open>checkAvailability\<close> returns\<close>

text \<open>
  Every call of \<^verbatim>\<open>checkAvailability\<close> asks \<^verbatim>\<open>generateTimeSlotSuggestions\<close> for
  suggestions, which calls \<^verbatim>\<open>checkAvailability\<close> again for every window it visits,
  each of the duration of the request, which is counted in whole minutes. A request of
  more than 480 minutes (481 or more) visits no window and returns at depth one; a
  request of at most 480 minutes visits at least one window of the same duration, and so
  returns at no depth.
\<close>

lemma those_None: "None \<in> set xs \<Longrightarrow> those xs = None"
  by (induction xs) (auto split: option.splits)

lemma half_hours_upto: "half_hours a b = [a..b]"
  by (induction a b rule: half_hours.induct) (subst half_hours.simps, simp add: upto.simps)

lemma diff_minutes_add_minutes: "diff_minutes (add_minutes t d) t = d"
proof (cases "0 \<le> d")
  case True
  then show ?thesis by (simp add: diff_minutes_def add_minutes_def msPerMinute_def)
next
  case False
  have "- (d * 60000) div 60000 = (- d) * 60000 div 60000" by simp
  also have "\<dots> = - d" by (simp del: mult_minus_left)
  finally show ?thesis using False
    by (simp add: diff_minutes_def add_minutes_def msPerMinute_def)
qed

lemma ceil_hours_le: "(ceil_hours d \<le> 8) = (d \<le> 480)"
proof -
  define q r where "q = (- d) div 60" and "r = (- d) mod 60"
  have "- d = 60 * q + r" and "0 \<le> r" and "r < 60"
    by (simp_all add: q_def r_def)
  then show ?thesis
    unfolding ceil_hours_def q_def [symmetric] by linarith
qed

lemma day_of_add_days: "day_of (add_days t k) = (day_of t + k) mod 7"
proof -
  have "(t + k * msPerDay) div msPerDay = t div msPerDay + k"
    by (simp add: msPerDay_def)
  then have "day_of (add_days t k) = (t div msPerDay + 4 + k) mod 7"
    by (simp add: day_of_def add_days_def add.commute add.left_commute)
  also have "\<dots> = (day_of t + k) mod 7"
    unfolding day_of_def by (simp add: mod_add_left_eq)
  finally show ?thesis .
qed

lemma day_of_range: "0 \<le> day_of t \<and> day_of t < 7"
  unfolding day_of_def by simp

lemma working_day_exists:
  "\<exists>k\<in>set [0..6]. day_of (add_days t k) \<noteq> 0 \<and> day_of (add_days t k) \<noteq> 6"
proof -
  have r: "0 \<le> day_of t \<and> day_of t < 7" by (rule day_of_range)
  have "((day_of t + 0) mod 7 \<noteq> 0 \<and> (day_of t + 0) mod 7 \<noteq> 6)
      \<or> ((day_of t + 2) mod 7 \<noteq> 0 \<and> (day_of t + 2) mod 7 \<noteq> 6)"
    using r by presburger
  then have "(day_of (add_days t 0) \<noteq> 0 \<and> day_of (add_days t 0) \<noteq> 6)
      \<or> (day_of (add_days t 2) \<noteq> 0 \<and> day_of (add_days t 2) \<noteq> 6)"
    unfolding day_of_add_days by simp
  moreover have "(0::int) \<in> set [0..6]" "(2::int) \<in> set [0..6]" by simp_all
  ultimately show ?thesis by blast
qed

lemma suggestion_windows_short:
  assumes "diff_minutes e s \<le> 480"
  shows "\<exists>w\<in>set (suggestion_windows s e). diff_minutes (snd w) (fst w) = diff_minutes e s"
proof -
  let ?d = "diff_minutes e s"
  from working_day_exists [of "startOf_day s"] obtain k where k: "k \<in> set [0..6]"
    and wd: "day_of (add_days (startOf_day s) k) \<noteq> 0" "day_of (add_days (startOf_day s) k) \<noteq> 6"
    by blast
  from assms have "ceil_hours ?d \<le> 8" by (simp add: ceil_hours_le)
  then have h: "(18::int) \<in> set (half_hours (2 * 9) (2 * (17 - ceil_hours ?d)))"
    unfolding half_hours_upto by simp
  let ?w = "(slot_start (add_days (startOf_day s) k) 18,
             add_minutes (slot_start (add_days (startOf_day s) k) 18) ?d)"
  have "?w \<in> set (suggestion_windows s e)"
    unfolding suggestion_windows_def Let_def set_concat set_map
    apply (rule UN_I [OF imageI [OF k]])
    using wd h by (auto simp del: set_upto)
  moreover have "diff_minutes (snd ?w) (fst ?w) = ?d" by (simp add: diff_minutes_add_minutes)
  ultimately show ?thesis by blast
qed

lemma suggestion_windows_long:
  assumes "480 < diff_minutes e s"
  shows "suggestion_windows s e = []"
proof -
  from assms have "\<not> ceil_hours (diff_minutes e s) \<le> 8" by (simp add: ceil_hours_le)
  then have "half_hours (2 * 9) (2 * (17 - ceil_hours (diff_minutes e s))) = []"
    unfolding half_hours_upto by simp
  then show ?thesis
    unfolding suggestion_windows_def Let_def by (auto simp del: upto.simps)
qed

lemma checkAvailability_short_window:
  "diff_minutes e s \<le> 480 \<Longrightarrow> checkAvailability depth db ps s e x = None"
proof (induction depth arbitrary: ps s e x)
  case 0
  then show ?case by simp
next
  case (Suc depth)
  from suggestion_windows_short [OF Suc.prems] obtain w where w: "w \<in> set (suggestion_windows s e)"
    and d: "diff_minutes (snd w) (fst w) = diff_minutes e s" by blast
  from d Suc.prems have "diff_minutes (snd w) (fst w) \<le> 480" by simp
  from Suc.IH [OF this] have "checkAvailability depth db ps (fst w) (snd w) None = None" .
  then have "(\<lambda>(slotStart, slotEnd). checkAvailability depth db ps slotStart slotEnd None) w = None"
    by (simp add: split_beta)
  with w have "None \<in> set (map (\<lambda>(slotStart, slotEnd). checkAvailability depth db ps slotStart slotEnd None)
                       (suggestion_windows s e))"
    unfolding set_map by (metis (no_types, lifting) image_eqI)
  from those_None [OF this]
  have "generateTimeSlotSuggestions (\<lambda>ps s e. checkAvailability depth db ps s e None) ps s e = None"
    unfolding generateTimeSlotSuggestions_def Let_def by simp
  then show ?case by simp
qed

lemma checkAvailability_long_window:
  assumes "480 < diff_minutes e s"
  shows "checkAvailability (Suc depth) db ps s e x
    = Some \<lparr>requestedTime = \<lparr>rt_start = s, rt_end = e, rt_duration = diff_minutes e s\<rparr>,
            report_participants = fullAvailability db ps s e x,
            summary = summarize (fullAvailability db ps s e x),
            report_canSchedule = canSchedule (fullAvailability db ps s e x),
            suggestions = []\<rparr>"
  by (simp add: generateTimeSlotSuggestions_def suggestion_windows_long [OF assms] Let_def)

lemma checkAvailability_returns:
  assumes "checkAvailability depth db ps s e x = Some r"
  shows "report_participants r = fullAvailability db ps s e x
       \<and> report_canSchedule r = canSchedule (fullAvailability db ps s e x)"
proof (cases depth)
  case 0
  with assms show ?thesis by simp
next
  case (Suc n)
  with assms show ?thesis by (auto simp: Let_def split: option.splits)
qed


lemma long_window_ordered: "480 < diff_minutes e s \<Longrightarrow> s < e"
  by (rule ccontr) (simp add: diff_minutes_def msPerMinute_def split: if_splits)

lemma long_window_report:
  assumes "480 < diff_minutes e s"
  shows "\<exists>report. checkAvailability (Suc depth) db ps s e x = Some report
     \<and> report_participants report = fullAvailability db ps s e x
     \<and> report_canSchedule report = canSchedule (fullAvailability db ps s e x)"
  unfolding checkAvailability_long_window [OF assms] by simp

lemma checkAvailability_malformed_window:
  assumes "e \<le> s"
  shows "checkAvailability depth db ps s e x = None"
proof -
  from assms have "diff_minutes e s \<le> 0"
    by (simp add: diff_minutes_def msPerMinute_def pos_imp_zdiv_nonneg_iff)
  then have "diff_minutes e s \<le> 480" by simp
  then show ?thesis by (rule checkAvailability_short_window)
qed

lemma long_window_conflict_iff_overlap:
  assumes "480 < diff_minutes e s" and "startTime m < endTime m"
    and "m \<in> set (meetings db)"
    and "status m = ''scheduled''" and "not_excluded x m"
    and "u \<in> set (users db)" and "user_id u \<in> set ps"
    and "user_id u \<in> user ` set (participants m)"
  shows "\<exists>report. checkAvailability (Suc depth) db ps s e x = Some report
     \<and> ((\<exists>r\<in>set (report_participants report).
             userId r = user_id u \<and> conflict_of m \<in> set (conflicts r))
        = spec_overlaps s e (startTime m) (endTime m))"
proof -
  from long_window_report [OF assms(1)] obtain report
    where ret: "checkAvailability (Suc depth) db ps s e x = Some report"
      and parts: "report_participants report = fullAvailability db ps s e x" by blast
  from assms(4) have st: "status m \<in> {''scheduled'', ''in_progress''}" by simp
  have "time_clause s e m = spec_overlaps s e (startTime m) (endTime m)"
    unfolding time_clause_def
    using window_clause_overlaps [OF long_window_ordered [OF assms(1)] assms(2)] by simp
  with conflict_reported_iff [OF assms(3) st assms(5-8), of s e]
  have "(\<exists>r\<in>set (report_participants report).
             userId r = user_id u \<and> conflict_of m \<in> set (conflicts r))
        = spec_overlaps s e (startTime m) (endTime m)"
    unfolding parts by simp
  with ret show ?thesis by blast
qed


section \<open>The claims on the interval conflict detector\<close>

text \<open>
  C5. The object literal of the \<^verbatim>\<open>$match\<close> stage in \<^verbatim>\<open>checkAvailability\<close>, and
  the one in \<^verbatim>\<open>detectConflicts\<close>, defines \<^verbatim>\<open>$or\<close> twice, and the second value (the
  time clause) replaces the first (the membership of the participants). The filter that
  is built is therefore the same for any two participant lists, given the same window and
  exclusion, and a stored meeting that involves none of the requested participants, as
  organizer or as participant, passes the stage as soon as it meets the time clause, the
  status filter and the exclusion.
\<close>

theorem C5_participants_ignored:
  "checkAvailability_match ps s e x = checkAvailability_match ps' s e x
   \<and> detectConflicts_match org ps s e = detectConflicts_match org' ps' s e
   \<and> (m \<in> set (meetings db) \<and> organizer m \<notin> set ps \<and> user ` set (participants m) \<inter> set ps = {}
        \<and> time_clause s e m \<and> status m \<in> {''scheduled'', ''in_progress''} \<and> not_excluded x m
      \<longrightarrow> m \<in> set (match_stage (checkAvailability_match ps s e x) (meetings db)))
   \<and> (m \<in> set (meetings db) \<and> organizer m \<notin> set (org # ps)
        \<and> user ` set (participants m) \<inter> set (org # ps) = {}
        \<and> time_clause s e m \<and> status m \<in> {''scheduled'', ''in_progress''}
      \<longrightarrow> m \<in> set (match_stage (detectConflicts_match org ps s e) (meetings db)))"
proof -
  have f1: "checkAvailability_match ps s e x = checkAvailability_match ps' s e x"
    by (simp only: checkAvailability_match_eq)
  have f2: "detectConflicts_match org ps s e = detectConflicts_match org' ps' s e"
    by (simp only: detectConflicts_match_eq)
  have m1: "m \<in> set (meetings db) \<and> organizer m \<notin> set ps
        \<and> user ` set (participants m) \<inter> set ps = {}
        \<and> time_clause s e m \<and> status m \<in> {''scheduled'', ''in_progress''} \<and> not_excluded x m
      \<longrightarrow> m \<in> set (match_stage (checkAvailability_match ps s e x) (meetings db))"
    unfolding match_stage_def by (simp add: matches_checkAvailability_match)
  have m2: "m \<in> set (meetings db) \<and> organizer m \<notin> set (org # ps)
        \<and> user ` set (participants m) \<inter> set (org # ps) = {}
        \<and> time_clause s e m \<and> status m \<in> {''scheduled'', ''in_progress''}
      \<longrightarrow> m \<in> set (match_stage (detectConflicts_match org ps s e) (meetings db))"
    unfolding match_stage_def by (simp add: matches_detectConflicts_match)
  from f1 f2 m1 m2 show ?thesis by blast
qed

text \<open>The meeting of A passes the filter of a call that asks for B alone.\<close>

theorem C5_participants_ignored_witness:
  "checkAvailability_match [2] 484200000 486000000 None
     = checkAvailability_match [1] 484200000 486000000 None
   \<and> organizer meeting_A \<notin> set [2] \<and> user ` set (participants meeting_A) \<inter> set [2] = {}
   \<and> meeting_A \<in> set (match_stage (checkAvailability_match [2] 484200000 486000000 None)
                         (meetings example_db))
   \<and> meeting_A \<in> set (match_stage (detectConflicts_match 2 [2] 484200000 486000000)
                         (meetings example_db))"
proof -
  have h: "meeting_A \<in> set (meetings example_db)" "organizer meeting_A \<notin> set [2]"
    "user ` set (participants meeting_A) \<inter> set [2] = {}"
    "organizer meeting_A \<notin> set [2, 2]"
    "user ` set (participants meeting_A) \<inter> set [2, 2] = {}"
    "time_clause 484200000 486000000 meeting_A"
    "status meeting_A \<in> {''scheduled'', ''in_progress''}" "not_excluded None meeting_A"
    by (simp_all add: example_db_def meeting_A_def time_clause_def window_clause_def
        not_excluded_def)
  from C5_participants_ignored [where ps = "[2]" and s = 484200000 and e = 486000000
      and x = None and ps' = "[1]" and org = 2 and org' = 2 and m = meeting_A and db = example_db]
    h show ?thesis by blast
qed

text \<open>
  C1. The time clause of the filter is the overlap rule of the specification, and on a
  window for which the call returns the report lists a scheduled meeting of a participant
  as a conflict exactly under that rule. Two defects keep \<^verbatim>\<open>checkAvailability\<close> from
  reporting an overlapping busy interval. First, for the window of the scenario of the
  specification, 14:30 to 15:00 asked of A and B, which the meeting of A from 14:00 to
  15:00 overlaps, the call returns at no depth. Second, a meeting that is in progress is
  stored with the status \<^verbatim>\<open>in-progress\<close>, and the filter asks for \<^verbatim>\<open>in_progress\<close>:
  with the meeting of C from 10:00 to 11:00 in progress, the window 9:00 to 18:00 asked of
  C returns a report in which C is \<^verbatim>\<open>available\<close> and has no conflict.
\<close>

theorem C1_overlap_not_reported:
  "spec_overlaps 484200000 486000000 (startTime meeting_A) (endTime meeting_A)
   \<and> meeting_A \<in> set (busy_intervals example_db None 1)
   \<and> checkAvailability depth example_db [1, 2] 484200000 486000000 None = None
   \<and> spec_overlaps 464400000 496800000 (startTime meeting_C) (endTime meeting_C)
   \<and> meeting_C \<in> set (busy_intervals progress_db None 3)
   \<and> map_option (\<lambda>r. map (\<lambda>p. (userId p, availability p, conflicts p)) (report_participants r))
        (checkAvailability (Suc depth) progress_db [3] 464400000 496800000 None)
      = Some [(3, ''available'', [])]"
proof -
  have a: "spec_overlaps 484200000 486000000 (startTime meeting_A) (endTime meeting_A)"
    "meeting_A \<in> set (busy_intervals example_db None 1)"
    "spec_overlaps 464400000 496800000 (startTime meeting_C) (endTime meeting_C)"
    "meeting_C \<in> set (busy_intervals progress_db None 3)"
    by code_simp+
  have "diff_minutes 486000000 484200000 \<le> 480"
    by (simp add: diff_minutes_def msPerMinute_def)
  then have b: "checkAvailability depth example_db [1, 2] 484200000 486000000 None = None"
    by (rule checkAvailability_short_window)
  have l: "480 < diff_minutes 496800000 464400000"
    by (simp add: diff_minutes_def msPerMinute_def)
  have f: "map (\<lambda>p. (userId p, availability p, conflicts p))
      (fullAvailability progress_db [3] 464400000 496800000 None) = [(3, ''available'', [])]"
    by code_simp
  have c: "map_option (\<lambda>r. map (\<lambda>p. (userId p, availability p, conflicts p)) (report_participants r))
        (checkAvailability (Suc depth) progress_db [3] 464400000 496800000 None)
      = Some [(3, ''available'', [])]"
    unfolding checkAvailability_long_window [OF l] using f by simp
  from a b c show ?thesis by blast
qed

text \<open>
  C2, as the code has it. Take a window for which the call returns (one of 481 minutes
  or more), stored meetings that have their start before their end and none of which is
  in progress (each has one of the statuses \<^verbatim>\<open>scheduled\<close>, \<^verbatim>\<open>completed\<close>,
  \<^verbatim>\<open>cancelled\<close> and \<^verbatim>\<open>postponed\<close> of the schema), and a requested participant who
  is a stored user. Then \<^verbatim>\<open>checkAvailability\<close> returns a report, the report has an
  entry for the participant, and the status of such an entry is \<^verbatim>\<open>busy\<close> if the
  participant has at least one overlapping busy interval of priority \<^verbatim>\<open>high\<close>,
  \<^verbatim>\<open>tentative\<close> if there is an overlapping busy interval but none of priority
  \<^verbatim>\<open>high\<close>, and \<^verbatim>\<open>available\<close> if there is none. The pipeline counts
  \<^verbatim>\<open>$eq: ['$priority', 'high']\<close>: an interval of priority \<^verbatim>\<open>urgent\<close> counts like any
  other that is not \<^verbatim>\<open>high\<close>.
\<close>

theorem C2_status:
  assumes "480 < diff_minutes e s"
    and "\<forall>m\<in>set (meetings db). startTime m < endTime m
          \<and> status m \<in> {''scheduled'', ''completed'', ''cancelled'', ''postponed''}"
    and "u \<in> set (users db)" and "user_id u \<in> set ps"
  shows "\<exists>report. checkAvailability (Suc depth) db ps s e x = Some report
     \<and> (\<exists>r\<in>set (report_participants report). userId r = user_id u)
     \<and> (\<forall>r\<in>set (report_participants report). userId r = user_id u \<longrightarrow>
          availability r =
            (if \<exists>m\<in>set (overlapping_intervals db s e x (user_id u)). priority m = ''high''
             then ''busy''
             else if overlapping_intervals db s e x (user_id u) \<noteq> [] then ''tentative''
             else ''available''))"
proof -
  from assms(1) have se: "s < e" by (rule long_window_ordered)
  from long_window_report [OF assms(1)] obtain report
    where ret: "checkAvailability (Suc depth) db ps s e x = Some report"
      and parts: "report_participants report = fullAvailability db ps s e x" by blast
  from assms(3,4) have "user_id u \<in> set (map user_id (allParticipants db ps))"
    by (simp add: allParticipants_def)
  then have "user_id u \<in> set (map userId (fullAvailability db ps s e x))"
    by (simp only: fullAvailability_ids)
  then have ex: "\<exists>r\<in>set (report_participants report). userId r = user_id u"
    unfolding parts by auto
  have all: "\<forall>r\<in>set (report_participants report). userId r = user_id u \<longrightarrow>
          availability r =
            (if \<exists>m\<in>set (overlapping_intervals db s e x (user_id u)). priority m = ''high''
             then ''busy''
             else if overlapping_intervals db s e x (user_id u) \<noteq> [] then ''tentative''
             else ''available'')"
  proof (intro ballI impI)
    fix r assume "r \<in> set (report_participants report)" and uid: "userId r = user_id u"
    then have r: "r \<in> set (fullAvailability db ps s e x)" unfolding parts by simp
    let ?O = "overlapping_intervals db s e x (user_id u)"
    have B: "{m \<in> set (matched_intervals db x (userId r)). time_clause s e m} = set ?O"
      unfolding uid overlapping_intervals_set [OF se assms(2)] ..
    from fullAvailability_row [OF r] have
      "availability r = (if set ?O = {} then ''available''
          else if \<exists>m\<in>set ?O. priority m = ''high'' then ''busy'' else ''tentative'')"
      unfolding B by blast
    then show "availability r =
            (if \<exists>m\<in>set ?O. priority m = ''high'' then ''busy''
             else if ?O \<noteq> [] then ''tentative'' else ''available'')"
      by auto
  qed
  from ret ex all show ?thesis by blast
qed

text \<open>C2 as stated fails: B is asked for 9:00 to 18:00, a window for which the call
  returns; B has a meeting of priority \<^verbatim>\<open>urgent\<close> from 11:00 to 12:00 and one of
  priority \<^verbatim>\<open>low\<close> from 16:00 to 17:00, and is reported \<^verbatim>\<open>tentative\<close>.\<close>

theorem C2_urgent_counterexample:
  "meeting_B \<in> set (overlapping_intervals example_db 464400000 496800000 None 2)
   \<and> priority meeting_B = ''urgent''
   \<and> map_option (\<lambda>r. map (\<lambda>p. (userId p, availability p)) (report_participants r))
        (checkAvailability 1 example_db [2] 464400000 496800000 None)
      = Some [(2, ''tentative'')]"
proof -
  have l: "480 < diff_minutes 496800000 464400000"
    by (simp add: diff_minutes_def msPerMinute_def)
  have a: "meeting_B \<in> set (overlapping_intervals example_db 464400000 496800000 None 2)"
    "priority meeting_B = ''urgent''"
    by code_simp+
  have f: "map (\<lambda>p. (userId p, availability p))
      (fullAvailability example_db [2] 464400000 496800000 None) = [(2, ''tentative'')]"
    by code_simp
  show ?thesis
    unfolding One_nat_def checkAvailability_long_window [OF l] using a f by simp
qed

text \<open>A and B are asked for 9:00 to 18:00; A has a meeting of priority \<^verbatim>\<open>high\<close> from
  14:00 to 15:00.\<close>

theorem C2_status_witness:
  "\<exists>report. checkAvailability 1 example_db [1, 2] 464400000 496800000 None = Some report
     \<and> (\<exists>r\<in>set (report_participants report). userId r = 1 \<and> availability r = ''busy'')"
proof -
  have h: "480 < diff_minutes 496800000 464400000"
    "\<forall>m\<in>set (meetings example_db). startTime m < endTime m
       \<and> status m \<in> {''scheduled'', ''completed'', ''cancelled'', ''postponed''}"
    "user_A \<in> set (users example_db)" "user_id user_A \<in> set [1, 2]"
    by (simp_all add: example_db_def meeting_A_def meeting_B_def meeting_AB_def user_A_def
        diff_minutes_def msPerMinute_def)
  have ov: "overlapping_intervals example_db 464400000 496800000 None (user_id user_A)
      = [meeting_A, meeting_AB]"
    by code_simp
  have hi: "priority meeting_A = ''high''" by (simp add: meeting_A_def)
  have id: "user_id user_A = 1" by (simp add: user_A_def)
  from C2_status [OF h, of 0 None] obtain report
    where ret: "checkAvailability (Suc 0) example_db [1, 2] 464400000 496800000 None = Some report"
      and ex: "\<exists>r\<in>set (report_participants report). userId r = user_id user_A"
      and all: "\<forall>r\<in>set (report_participants report). userId r = user_id user_A \<longrightarrow>
        availability r =
          (if \<exists>m\<in>set [meeting_A, meeting_AB]. priority m = ''high'' then ''busy''
           else if [meeting_A, meeting_AB] \<noteq> [] then ''tentative'' else ''available'')"
    unfolding ov by blast
  from ex obtain r where r: "r \<in> set (report_participants report)" "userId r = user_id user_A"
    by blast
  with all have "availability r = ''busy''" by (simp add: hi)
  with r ret show ?thesis unfolding id One_nat_def by blast
qed

text \<open>
  C3, as the code has it. Take a window for which the call returns (one of 481 minutes
  or more) and stored meetings that have their start before their end and none of which
  is in progress (each has one of the statuses \<^verbatim>\<open>scheduled\<close>, \<^verbatim>\<open>completed\<close>,
  \<^verbatim>\<open>cancelled\<close> and \<^verbatim>\<open>postponed\<close> of the schema). Then \<^verbatim>\<open>checkAvailability\<close> returns a report in which
  \<^verbatim>\<open>canSchedule\<close> is true if and only if no entry of the participant list has status
  \<^verbatim>\<open>busy\<close>. The list has one entry for every stored user whose id is among the
  requested participants, in the order of the collection: exactly one per requested
  participant when the requested ids are distinct and all belong to stored users (ids are
  unique in the collection), none for an id that no stored user has. A listed participant
  without any overlapping busy interval has status \<^verbatim>\<open>available\<close> and an empty
  conflict list. With no participants the list is empty and \<^verbatim>\<open>canSchedule\<close> is true.
\<close>

theorem C3_report:
  assumes "480 < diff_minutes e s"
    and "\<forall>m\<in>set (meetings db). startTime m < endTime m
          \<and> status m \<in> {''scheduled'', ''completed'', ''cancelled'', ''postponed''}"
  shows "\<exists>report. checkAvailability (Suc depth) db ps s e x = Some report
     \<and> report_canSchedule report
         = (\<not> (\<exists>p\<in>set (report_participants report). availability p = ''busy''))
     \<and> map userId (report_participants report)
         = map user_id (filter (\<lambda>u. user_id u \<in> set ps) (users db))
     \<and> (distinct (map user_id (users db)) \<and> distinct ps \<and> set ps \<subseteq> user_id ` set (users db)
          \<longrightarrow> distinct (map userId (report_participants report))
            \<and> set (map userId (report_participants report)) = set ps
            \<and> length (report_participants report) = length ps)
     \<and> (\<forall>r\<in>set (report_participants report).
           overlapping_intervals db s e x (userId r) = []
           \<longrightarrow> availability r = ''available'' \<and> conflicts r = [])
     \<and> (ps = [] \<longrightarrow> report_participants report = [] \<and> report_canSchedule report)"
proof -
  let ?F = "fullAvailability db ps s e x"
  from assms(1) have se: "s < e" by (rule long_window_ordered)
  from long_window_report [OF assms(1)] obtain report
    where ret: "checkAvailability (Suc depth) db ps s e x = Some report"
      and parts: "report_participants report = ?F"
      and cs: "report_canSchedule report = canSchedule ?F" by blast
  have a: "report_canSchedule report
         = (\<not> (\<exists>p\<in>set (report_participants report). availability p = ''busy''))"
    unfolding parts cs by (rule canSchedule_iff)
  have b: "map userId (report_participants report)
         = map user_id (filter (\<lambda>u. user_id u \<in> set ps) (users db))"
    unfolding parts by (simp add: fullAvailability_ids allParticipants_def)
  have c: "distinct (map user_id (users db)) \<and> distinct ps \<and> set ps \<subseteq> user_id ` set (users db)
          \<longrightarrow> distinct (map userId (report_participants report))
            \<and> set (map userId (report_participants report)) = set ps
            \<and> length (report_participants report) = length ps"
    unfolding parts using fullAvailability_distinct_ids [of db ps s e x] by blast
  have d: "\<forall>r\<in>set (report_participants report).
           overlapping_intervals db s e x (userId r) = []
           \<longrightarrow> availability r = ''available'' \<and> conflicts r = []"
  proof (intro ballI impI)
    fix r assume r: "r \<in> set (report_participants report)"
      and "overlapping_intervals db s e x (userId r) = []"
    then have "set (overlapping_intervals db s e x (userId r)) = {}" by simp
    then have "{m \<in> set (matched_intervals db x (userId r)). time_clause s e m} = {}"
      unfolding overlapping_intervals_set [OF se assms(2)] .
    with r show "availability r = ''available'' \<and> conflicts r = []"
      unfolding parts by (rule fullAvailability_clean)
  qed
  have e: "ps = [] \<longrightarrow> report_participants report = [] \<and> report_canSchedule report"
    unfolding parts cs
    by (auto simp: fullAvailability_no_participants canSchedule_def)
  from ret a b c d e show ?thesis by blast
qed

text \<open>C3 as stated fails: the participant 4 is requested for 9:00 to 18:00, a window for
  which the call returns; no stored user has this id, and the participant list of the
  report has no entry.\<close>

theorem C3_unknown_participant_counterexample:
  "map_option report_participants
     (checkAvailability 1 example_db [4] 464400000 496800000 None) = Some []"
proof -
  have l: "480 < diff_minutes 496800000 464400000"
    by (simp add: diff_minutes_def msPerMinute_def)
  have f: "fullAvailability example_db [4] 464400000 496800000 None = []"
    by code_simp
  show ?thesis
    unfolding One_nat_def checkAvailability_long_window [OF l] using f by simp
qed

text \<open>C and A are asked for 9:00 to 18:00.\<close>

theorem C3_report_witness:
  "\<exists>report. checkAvailability 1 example_db [3, 1] 464400000 496800000 None = Some report
     \<and> length (report_participants report) = 2
     \<and> (\<exists>r\<in>set (report_participants report).
           userId r = 3 \<and> availability r = ''available'' \<and> conflicts r = [])
     \<and> \<not> report_canSchedule report"
proof -
  have h: "480 < diff_minutes 496800000 464400000"
    "\<forall>m\<in>set (meetings example_db). startTime m < endTime m
       \<and> status m \<in> {''scheduled'', ''completed'', ''cancelled'', ''postponed''}"
    by (simp_all add: example_db_def meeting_A_def meeting_B_def meeting_AB_def
        diff_minutes_def msPerMinute_def)
  from C3_report [OF h, of 0 "[3, 1]" None] obtain report
    where ret: "checkAvailability (Suc 0) example_db [3, 1] 464400000 496800000 None = Some report"
      and cs: "report_canSchedule report
         = (\<not> (\<exists>p\<in>set (report_participants report). availability p = ''busy''))"
      and dist: "distinct (map user_id (users example_db)) \<and> distinct [3, 1 :: nat]
          \<and> set [3, 1] \<subseteq> user_id ` set (users example_db)
          \<longrightarrow> distinct (map userId (report_participants report))
            \<and> set (map userId (report_participants report)) = set [3, 1]
            \<and> length (report_participants report) = length [3, 1 :: nat]"
      and clean: "\<forall>r\<in>set (report_participants report).
           overlapping_intervals example_db 464400000 496800000 None (userId r) = []
           \<longrightarrow> availability r = ''available'' \<and> conflicts r = []"
    by blast
  have d: "distinct (map user_id (users example_db)) \<and> distinct [3, 1 :: nat]
      \<and> set [3, 1] \<subseteq> user_id ` set (users example_db)"
    by (simp add: example_db_def user_A_def user_B_def user_C_def)
  with dist have len: "length (report_participants report) = 2"
    and st: "set (map userId (report_participants report)) = set [3, 1]" by simp_all
  from st have "(3::nat) \<in> userId ` set (report_participants report)" by simp
  then obtain r where r: "r \<in> set (report_participants report)" "userId r = 3"
    by (auto simp del: One_nat_def)
  have "overlapping_intervals example_db 464400000 496800000 None 3 = []" by code_simp
  with clean r have c: "availability r = ''available'' \<and> conflicts r = []" by simp
  from ret have "report_participants report
      = fullAvailability example_db [3, 1] 464400000 496800000 None"
    by (rule checkAvailability_returns [THEN conjunct1])
  moreover have "\<exists>p\<in>set (fullAvailability example_db [3, 1] 464400000 496800000 None).
      availability p = ''busy''"
    by code_simp
  ultimately have "\<not> report_canSchedule report" unfolding cs by simp
  with ret len r c show ?thesis unfolding One_nat_def by blast
qed

text \<open>
  C9. \<^verbatim>\<open>checkAvailability\<close> has no check of the window and no error for it. A window
  with \<open>start \<ge> end\<close> is handed to \<^verbatim>\<open>generateTimeSlotSuggestions\<close> like any other;
  its duration is at most 0, so windows of that duration are visited and checked in turn,
  and the call returns at no depth: the window is not rejected, and no answer comes
  back. The theorem takes the zero-duration window at 15:00 and the window from 15:00
  back to 14:00, both asked of A.
\<close>

theorem C9_malformed_window_not_rejected:
  "checkAvailability depth example_db [1] 486000000 486000000 None = None
   \<and> checkAvailability depth example_db [1] 486000000 482400000 None = None"
proof -
  have "(486000000::int) \<le> 486000000" "(482400000::int) \<le> 486000000" by simp_all
  then show ?thesis by (simp only: checkAvailability_malformed_window simp_thms)
qed


section \<open>Properties of the candidate generator\<close>

lemma startOf_day_mult: "startOf_day t = msPerDay * (t div msPerDay)"
  unfolding startOf_day_def by (simp add: minus_mod_eq_mult_div)

lemma mod_hour_day: "t mod msPerDay mod msPerHour = t mod msPerHour"
  by (rule mod_mod_cancel) (simp add: msPerDay_def msPerHour_def)

lemma mod_minute_hour: "t mod msPerHour mod msPerMinute = t mod msPerMinute"
  by (rule mod_mod_cancel) (simp add: msPerMinute_def msPerHour_def)

lemma set_hour_eq: "set_hour t h = startOf_day t + h * msPerHour + t mod msPerHour"
proof -
  have "t mod msPerDay = (t mod msPerDay) div msPerHour * msPerHour + t mod msPerHour"
    using div_mult_mod_eq [of "t mod msPerDay" msPerHour] by (simp add: mod_hour_day)
  then show ?thesis
    unfolding set_hour_def hour_of_def startOf_day_def by linarith
qed

lemma set_minute_eq:
  "set_minute t n = t - t mod msPerHour + n * msPerMinute + t mod msPerMinute"
proof -
  have "t mod msPerHour = (t mod msPerHour) div msPerMinute * msPerMinute + t mod msPerMinute"
    using div_mult_mod_eq [of "t mod msPerHour" msPerMinute] by (simp add: mod_minute_hour)
  then show ?thesis
    unfolding set_minute_def minute_of_def by linarith
qed

lemma slot_start_eq:
  "slot_start cur h2
   = startOf_day cur + floor_hour h2 * msPerHour + minute_part h2 * msPerMinute
     + cur mod msPerMinute"
proof -
  let ?t1 = "set_hour cur (floor_hour h2)"
  have t1: "?t1 = startOf_day cur + floor_hour h2 * msPerHour + cur mod msPerHour"
    by (rule set_hour_eq)
  have "startOf_day cur + floor_hour h2 * msPerHour
      = msPerHour * (24 * (cur div msPerDay) + floor_hour h2)"
    unfolding startOf_day_mult by (simp add: msPerDay_def msPerHour_def algebra_simps)
  then have "?t1 mod msPerHour = cur mod msPerHour"
    unfolding t1 by (simp add: mod_mult_self4 del: mult_numeral_left_semiring_numeral)
  then have "?t1 - ?t1 mod msPerHour = startOf_day cur + floor_hour h2 * msPerHour"
    and "?t1 mod msPerMinute = cur mod msPerMinute"
    using t1 mod_minute_hour [of ?t1] mod_minute_hour [of cur] by simp_all
  then show ?thesis
    unfolding slot_start_def set_minute_eq by simp
qed


lemma slot_start_half:
  assumes "0 \<le> h2"
  shows "slot_start cur h2
    = startOf_day cur + h2 * (30 * msPerMinute) + cur mod msPerMinute"
proof -
  have "h2 * (30 * msPerMinute)
      = (h2 div 2) * msPerHour + (h2 mod 2 * 30) * msPerMinute"
    using div_mult_mod_eq [of h2 2] unfolding msPerHour_def msPerMinute_def by linarith
  with assms show ?thesis
    unfolding slot_start_eq floor_hour_def minute_part_def by simp
qed

lemma make_slot_times:
  "slot_startTime (make_slot cur d h2 cmap prefs) = slot_start cur h2"
  "slot_endTime (make_slot cur d h2 cmap prefs) = add_minutes (slot_start cur h2) d"
  by (simp_all add: make_slot_def Let_def)

lemma day_slots_default:
  "day_slots cur 30 default_workingHours cmap prefs
   = map (\<lambda>h2. make_slot cur 30 h2 cmap prefs) [18..32]"
  by (simp add: day_slots_def default_workingHours_def half_hours_upto ceil_hours_def
      del: upto.simps)

lemma day_slots_default_times:
  "map (\<lambda>s. (slot_startTime s, slot_endTime s)) (day_slots cur 30 default_workingHours cmap prefs)
   = map (\<lambda>h2. (startOf_day cur + h2 * (30 * msPerMinute) + cur mod msPerMinute,
                 startOf_day cur + (h2 + 1) * (30 * msPerMinute) + cur mod msPerMinute))
       [18..32]"
  unfolding day_slots_default map_map
proof (rule map_cong [OF refl])
  fix h2 :: int assume "h2 \<in> set [18..32]"
  then have "h2 \<in> {18..32}" by (simp only: set_upto)
  then have "0 \<le> h2" by simp
  from slot_start_half [OF this, of cur] show
    "((\<lambda>s. (slot_startTime s, slot_endTime s)) \<circ> (\<lambda>h2. make_slot cur 30 h2 cmap prefs)) h2
     = (startOf_day cur + h2 * (30 * msPerMinute) + cur mod msPerMinute,
        startOf_day cur + (h2 + 1) * (30 * msPerMinute) + cur mod msPerMinute)"
    by (simp add: make_slot_times add_minutes_def algebra_simps)
qed

lemma add_days_add_days: "add_days (add_days t a) b = add_days t (a + b)"
  by (simp add: add_days_def algebra_simps)

lemma collect_slots_days:
  "collect_slots cur (add_days cur (int n)) d wh cmap prefs
   = concat (map (\<lambda>i. day_slots (add_days cur (int i)) d wh cmap prefs)
               (filter (\<lambda>i. day_kept prefs (add_days cur (int i))) [0..<n]))"
proof (induction n arbitrary: cur)
  case 0
  show ?case by (subst collect_slots.simps) (simp add: add_days_def)
next
  case (Suc n)
  have lt: "cur < add_days cur (int (Suc n))" by (simp add: add_days_def msPerDay_def)
  have e: "add_days cur (int (Suc n)) = add_days (add_days cur 1) (int n)"
    by (simp add: add_days_add_days)
  have shift: "\<And>i. add_days (add_days cur 1) (int i) = add_days cur (int (Suc i))"
    by (simp add: add_days_add_days)
  have upt: "[0..<Suc n] = 0 # map Suc [0..<n]"
    by (simp add: upt_conv_Cons map_Suc_upt del: upt_Suc)
  have "collect_slots (add_days cur 1) (add_days cur (int (Suc n))) d wh cmap prefs
      = collect_slots (add_days cur 1) (add_days (add_days cur 1) (int n)) d wh cmap prefs"
    by (simp only: e)
  also have "\<dots> = concat (map (\<lambda>i. day_slots (add_days (add_days cur 1) (int i)) d wh cmap prefs)
               (filter (\<lambda>i. day_kept prefs (add_days (add_days cur 1) (int i))) [0..<n]))"
    by (rule Suc.IH)
  also have "\<dots> = concat (map (\<lambda>i. day_slots (add_days cur (int (Suc i))) d wh cmap prefs)
               (filter (\<lambda>i. day_kept prefs (add_days cur (int (Suc i)))) [0..<n]))"
    by (simp only: shift)
  also have "\<dots> = concat (map (\<lambda>i. day_slots (add_days cur (int i)) d wh cmap prefs)
               (filter (\<lambda>i. day_kept prefs (add_days cur (int i))) (map Suc [0..<n])))"
    by (simp add: filter_map o_def)
  finally have rest: "collect_slots (add_days cur 1) (add_days cur (int (Suc n))) d wh cmap prefs
      = concat (map (\<lambda>i. day_slots (add_days cur (int i)) d wh cmap prefs)
               (filter (\<lambda>i. day_kept prefs (add_days cur (int i))) (map Suc [0..<n])))" .
  have z: "add_days cur 0 = cur" by (simp add: add_days_def)
  show ?case
    apply (subst collect_slots.simps)
    unfolding upt rest using lt
    by (simp add: z day_kept_def del: upt_Suc)
qed

lemma generateOptimalTimeSlots_mset:
  "mset (generateOptimalTimeSlots ps d sd (add_days sd (int n)) cd prefs)
   = mset (concat (map (\<lambda>i. day_slots (add_days sd (int i)) d (effective_workingHours prefs)
                              (slot_conflictMap cd) prefs)
               (filter (\<lambda>i. day_kept prefs (add_days sd (int i))) [0..<n])))"
  unfolding generateOptimalTimeSlots_def Let_def effective_workingHours_def
  by (simp add: collect_slots_days del: mset_concat)

lemma effective_default:
  "workingHours prefs = None \<or> workingHours prefs = Some default_workingHours
   \<Longrightarrow> effective_workingHours prefs = default_workingHours"
  by (auto simp: effective_workingHours_def)

lemma div_mod_decomp:
  fixes b q y :: int
  assumes "0 \<le> y" and "y < b"
  shows "(b * q + y) div b = q" and "(b * q + y) mod b = y"
  using assms by (simp_all add: div_pos_pos_trivial mod_pos_pos_trivial)

lemma startOf_day_add_days: "startOf_day (add_days t i) = startOf_day t + i * msPerDay"
  unfolding startOf_day_def add_days_def by simp

lemma mod_minute_add_days: "add_days t i mod msPerMinute = t mod msPerMinute"
proof -
  have "t + i * msPerDay = t + (i * 1440) * msPerMinute"
    by (simp add: msPerDay_def msPerMinute_def)
  then show ?thesis unfolding add_days_def by (simp only: mod_mult_self1)
qed

lemma generated_slot:
  assumes wh: "workingHours prefs = None \<or> workingHours prefs = Some default_workingHours"
    and s: "s \<in> set (generateOptimalTimeSlots ps 30 sd (add_days sd (int n)) cd prefs)"
  obtains i h2 where "i < n" and "18 \<le> h2" and "h2 \<le> 32"
    and "day_kept prefs (add_days sd (int i))"
    and "slot_startTime s
         = startOf_day sd + int i * msPerDay + h2 * (30 * msPerMinute) + sd mod msPerMinute"
    and "slot_endTime s = slot_startTime s + 30 * msPerMinute"
proof -
  from s have "s \<in># mset (generateOptimalTimeSlots ps 30 sd (add_days sd (int n)) cd prefs)"
    by simp
  then have "s \<in> set (concat (map (\<lambda>i. day_slots (add_days sd (int i)) 30 default_workingHours
                              (slot_conflictMap cd) prefs)
               (filter (\<lambda>i. day_kept prefs (add_days sd (int i))) [0..<n])))"
    unfolding generateOptimalTimeSlots_mset effective_default [OF wh]
    by (simp only: set_mset_mset)
  then obtain i where i: "i < n" "day_kept prefs (add_days sd (int i))"
    and mem: "s \<in> set (day_slots (add_days sd (int i)) 30 default_workingHours
                              (slot_conflictMap cd) prefs)"
    by auto
  let ?cur = "add_days sd (int i)"
  from mem obtain h2 where h2: "h2 \<in> set [18..32]"
    and eq: "s = make_slot ?cur 30 h2 (slot_conflictMap cd) prefs"
    unfolding day_slots_default by (auto simp del: upto.simps)
  from h2 have r: "h2 \<in> {18..32}" by (simp only: set_upto)
  then have nn: "0 \<le> h2" and lo: "18 \<le> h2" and hi: "h2 \<le> 32" by simp_all
  have st: "slot_startTime s
         = startOf_day sd + int i * msPerDay + h2 * (30 * msPerMinute) + sd mod msPerMinute"
    unfolding eq make_slot_times slot_start_half [OF nn] startOf_day_add_days
      mod_minute_add_days ..
  have en: "slot_endTime s = slot_startTime s + 30 * msPerMinute"
    unfolding eq make_slot_times add_minutes_def ..
  from i(1) lo hi i(2) st en show thesis by (rule that)
qed

lemma generated_slot_bounds:
  assumes wh: "workingHours prefs = None \<or> workingHours prefs = Some default_workingHours"
    and s: "s \<in> set (generateOptimalTimeSlots ps 30 sd (add_days sd (int n)) cd prefs)"
  shows "startOf_day sd + 9 * msPerHour \<le> slot_startTime s"
    and "slot_endTime s = slot_startTime s + 30 * msPerMinute"
    and "slot_endTime s < add_days sd (int n)"
    and "9 \<le> hour_of (slot_startTime s)" and "hour_of (slot_startTime s) \<le> 16"
    and "minute_of (slot_startTime s) = 0 \<or> minute_of (slot_startTime s) = 30"
    and "day_kept prefs (slot_startTime s)"
    and "hour_of sd < 9 \<or> hour_of sd = 9 \<and> minute_of sd = 0 \<Longrightarrow> sd \<le> slot_startTime s"
proof -
  from generated_slot [OF wh s] obtain i h2 where i: "i < n" and lo: "18 \<le> h2" and hi: "h2 \<le> 32"
    and kept: "day_kept prefs (add_days sd (int i))"
    and st: "slot_startTime s
         = startOf_day sd + int i * msPerDay + h2 * (30 * msPerMinute) + sd mod msPerMinute"
    and en: "slot_endTime s = slot_startTime s + 30 * msPerMinute"
    by blast
  let ?r = "sd mod msPerMinute"
  have r: "0 \<le> ?r" "?r < 60000" by (simp_all add: msPerMinute_def)
  have sod: "startOf_day sd \<le> sd" by (simp add: startOf_day_def msPerDay_def)
  show "startOf_day sd + 9 * msPerHour \<le> slot_startTime s"
    unfolding st msPerHour_def msPerMinute_def msPerDay_def using lo r by simp
  show "slot_endTime s = slot_startTime s + 30 * msPerMinute" by (rule en)
  have "int i + 1 \<le> int n" using i by simp
  then have "(int i + 1) * 86400000 \<le> int n * 86400000" by (rule mult_right_mono) simp
  then show "slot_endTime s < add_days sd (int n)"
    unfolding en st add_days_def msPerDay_def using hi r sod
    by (simp add: msPerMinute_def algebra_simps)
  let ?y = "h2 * (30 * msPerMinute) + ?r"
  have y: "0 \<le> ?y" "?y < msPerDay"
    using lo hi r by (simp_all add: msPerMinute_def msPerDay_def)
  have S: "slot_startTime s = msPerDay * (sd div msPerDay + int i) + ?y"
    unfolding st startOf_day_mult by (simp add: algebra_simps)
  have modD: "slot_startTime s mod msPerDay = ?y" and divD: "slot_startTime s div msPerDay = sd div msPerDay + int i"
    unfolding S using div_mod_decomp [OF y] by simp_all
  let ?z = "(h2 mod 2) * (30 * msPerMinute) + ?r"
  have z: "0 \<le> ?z" "?z < msPerHour"
    using r by (simp_all add: msPerMinute_def msPerHour_def) 
  have Y: "?y = msPerHour * (h2 div 2) + ?z"
    using div_mult_mod_eq [of h2 2] unfolding msPerHour_def msPerMinute_def by linarith
  have hour: "hour_of (slot_startTime s) = h2 div 2"
    unfolding hour_of_def modD Y using div_mod_decomp(1) [OF z] by simp
  from lo hi show "9 \<le> hour_of (slot_startTime s)" and "hour_of (slot_startTime s) \<le> 16"
    unfolding hour by simp_all
  have "slot_startTime s mod msPerHour = ?y mod msPerHour"
    using mod_hour_day [of "slot_startTime s"] unfolding modD by simp
  also have "\<dots> = ?z" unfolding Y using div_mod_decomp(2) [OF z] by simp
  finally have modH: "slot_startTime s mod msPerHour = ?z" .
  have Z: "?z = msPerMinute * ((h2 mod 2) * 30) + ?r" by simp
  have "0 \<le> ?r" and "?r < msPerMinute" by (simp_all add: msPerMinute_def)
  from div_mod_decomp(1) [OF this, of "(h2 mod 2) * 30"]
  have "?z div msPerMinute = (h2 mod 2) * 30" by (simp only: Z)
  then have minute: "minute_of (slot_startTime s) = (h2 mod 2) * 30"
    unfolding minute_of_def modH .
  show "minute_of (slot_startTime s) = 0 \<or> minute_of (slot_startTime s) = 30"
    unfolding minute by (cases "h2 mod 2 = 0") auto
  have "day_of (slot_startTime s) = day_of (add_days sd (int i))"
    unfolding day_of_def divD add_days_def by (simp add: msPerDay_def add.commute)
  with kept show "day_kept prefs (slot_startTime s)" by (simp add: day_kept_def)
  assume early: "hour_of sd < 9 \<or> hour_of sd = 9 \<and> minute_of sd = 0"
  have a: "sd = startOf_day sd + sd mod msPerDay" by (simp add: startOf_day_def)
  have b: "sd mod msPerDay = hour_of sd * msPerHour + sd mod msPerHour"
    using div_mult_mod_eq [of "sd mod msPerDay" msPerHour]
    unfolding hour_of_def mod_hour_day by simp
  have c: "sd mod msPerHour = minute_of sd * msPerMinute + ?r"
    using div_mult_mod_eq [of "sd mod msPerHour" msPerMinute]
    unfolding minute_of_def mod_minute_hour by simp
  have mlt: "sd mod msPerHour < msPerHour" by (simp add: msPerHour_def)
  have "sd \<le> startOf_day sd + 9 * msPerHour + ?r"
    using early mlt a b c r unfolding msPerHour_def msPerMinute_def by linarith
  also have "\<dots> \<le> slot_startTime s"
    unfolding st using lo by (simp add: msPerHour_def msPerMinute_def msPerDay_def)
  finally show "sd \<le> slot_startTime s" .
qed



text \<open>
  C6, as the code has it. For a requested duration of 30 minutes and working hours from
  9 to 17, \<^verbatim>\<open>generateOptimalTimeSlots\<close> yields, up to the final sort by score, the
  windows of the inner loop for every day of the horizon that is kept; on each such day
  these are exactly 15 windows, the k-th starting k half hours after 9:00 of that day
  (up to and including 16:00, keeping the seconds and milliseconds of the horizon start)
  and lasting exactly 30 minutes. Every yielded window starts at or after 9:00 of the
  calendar day of the horizon start, ends before the horizon start plus the horizon, has
  its start hour between 9 and 16 and its start minute 0 or 30, and lies on a kept day.
  It starts at or after the horizon start itself when this is at or before 9:00 of its
  day.
\<close>

theorem C6_candidate_windows:
  assumes "workingHours prefs = None \<or> workingHours prefs = Some default_workingHours"
  shows "mset (generateOptimalTimeSlots ps 30 sd (add_days sd (int n)) cd prefs)
       = mset (concat (map (\<lambda>i. day_slots (add_days sd (int i)) 30 default_workingHours
                                  (slot_conflictMap cd) prefs)
                   (filter (\<lambda>i. day_kept prefs (add_days sd (int i))) [0..<n])))
     \<and> (\<forall>cur cmap. length (day_slots cur 30 default_workingHours cmap prefs) = 15
          \<and> map (\<lambda>s. (slot_startTime s, slot_endTime s))
                (day_slots cur 30 default_workingHours cmap prefs)
            = map (\<lambda>h2. (startOf_day cur + h2 * (30 * msPerMinute) + cur mod msPerMinute,
                         startOf_day cur + (h2 + 1) * (30 * msPerMinute) + cur mod msPerMinute))
                [18..32])
     \<and> (\<forall>s\<in>set (generateOptimalTimeSlots ps 30 sd (add_days sd (int n)) cd prefs).
           startOf_day sd + 9 * msPerHour \<le> slot_startTime s
         \<and> slot_endTime s = slot_startTime s + 30 * msPerMinute
         \<and> slot_endTime s < add_days sd (int n)
         \<and> 9 \<le> hour_of (slot_startTime s) \<and> hour_of (slot_startTime s) \<le> 16
         \<and> (minute_of (slot_startTime s) = 0 \<or> minute_of (slot_startTime s) = 30)
         \<and> day_kept prefs (slot_startTime s))
     \<and> (hour_of sd < 9 \<or> hour_of sd = 9 \<and> minute_of sd = 0 \<longrightarrow>
          (\<forall>s\<in>set (generateOptimalTimeSlots ps 30 sd (add_days sd (int n)) cd prefs).
             sd \<le> slot_startTime s))"
proof -
  have a: "mset (generateOptimalTimeSlots ps 30 sd (add_days sd (int n)) cd prefs)
       = mset (concat (map (\<lambda>i. day_slots (add_days sd (int i)) 30 default_workingHours
                                  (slot_conflictMap cd) prefs)
                   (filter (\<lambda>i. day_kept prefs (add_days sd (int i))) [0..<n])))"
    unfolding generateOptimalTimeSlots_mset effective_default [OF assms] ..
  have b: "\<And>cur cmap. length (day_slots cur 30 default_workingHours cmap prefs) = 15"
    unfolding day_slots_default by simp
  note c = day_slots_default_times [of _ _ prefs]
  note d = generated_slot_bounds [OF assms, of _ ps sd n cd]
  from a b c d show ?thesis by blast
qed

text \<open>C6 as stated fails: with a horizon of one day that starts on Thursday 1970-01-01
  at 12:00, the window of 9:00 of that day is yielded, before the horizon start.\<close>

theorem C6_before_horizon_counterexample:
  "32400000 \<in> set (map slot_startTime
       (generateOptimalTimeSlots [] 30 43200000 (add_days 43200000 1) [] no_preferences))
   \<and> (32400000::int) < 43200000"
  by code_simp

text \<open>A horizon of one day from Tuesday 1970-01-06, 0:00.\<close>

theorem C6_candidate_windows_witness:
  "length (generateOptimalTimeSlots [] 30 432000000 (add_days 432000000 1) [] no_preferences) = 15
   \<and> (\<exists>s\<in>set (generateOptimalTimeSlots [] 30 432000000 (add_days 432000000 1) []
                   no_preferences).
         432000000 \<le> slot_startTime s \<and> slot_endTime s < add_days 432000000 1)"
proof -
  let ?G = "generateOptimalTimeSlots [] 30 432000000 (add_days 432000000 (int 1)) [] no_preferences"
  have wh: "workingHours no_preferences = None
      \<or> workingHours no_preferences = Some default_workingHours"
    by (simp add: no_preferences_def)
  note c6 = C6_candidate_windows [OF wh, of "[]" 432000000 1 "[]"]
  have kept: "day_kept no_preferences (add_days 432000000 (int 0))"
    by (simp add: day_kept_def day_of_def add_days_def msPerDay_def)
  have early: "hour_of 432000000 < 9" by (simp add: hour_of_def msPerDay_def msPerHour_def)
  from c6 have "size (mset ?G) = size (mset (concat (map (\<lambda>i. day_slots (add_days 432000000 (int i)) 30
      default_workingHours (slot_conflictMap []) no_preferences)
      (filter (\<lambda>i. day_kept no_preferences (add_days 432000000 (int i))) [0..<1]))))"
    by simp
  also have "\<dots> = length (day_slots (add_days 432000000 (int 0)) 30
      default_workingHours (slot_conflictMap []) no_preferences)"
    using kept by simp
  also have "\<dots> = 15" using c6 by blast
  finally have len: "length ?G = 15" by simp
  then have "?G \<noteq> []" by auto
  then obtain s where s: "s \<in> set ?G" by (cases ?G) auto
  with c6 early have "432000000 \<le> slot_startTime s" and "slot_endTime s < add_days 432000000 (int 1)"
    by blast+
  with len s show ?thesis by auto
qed

lemma score_preferredDays [simp]:
  "calculateAdvancedTimeSlotScore t c (prefs\<lparr>preferredDays := pd\<rparr>)
   = calculateAdvancedTimeSlotScore t c prefs"
  by (simp add: scorer_refines_spec spec_score_def spec_preference_term_def
      split del: if_split cong: if_cong)

lemma day_slots_preferredDays [simp]:
  "day_slots cur d wh cmap (prefs\<lparr>preferredDays := pd\<rparr>) = day_slots cur d wh cmap prefs"
  by (simp add: day_slots_def make_slot_def Let_def split del: if_split cong: if_cong)

lemma collect_slots_preferredDays:
  "collect_slots cur ed d wh cmap (prefs\<lparr>preferredDays := pd\<rparr>)
   = collect_slots cur ed d wh cmap prefs"
proof (induction cur ed d wh cmap prefs rule: collect_slots.induct)
  case (1 currentDate endDate duration wh cmap prefs)
  note L = collect_slots.simps [of currentDate endDate duration wh cmap "prefs\<lparr>preferredDays := pd\<rparr>"]
  note R = collect_slots.simps [of currentDate endDate duration wh cmap prefs]
  show ?case
  proof (cases "currentDate < endDate")
    case False
    then show ?thesis by (simp only: L R if_False)
  next
    case True
    show ?thesis
    proof (cases "\<not> includeWeekends prefs \<and> (day_of currentDate = 0 \<or> day_of currentDate = 6)")
      case True
      from "1.IH"(1) [OF \<open>currentDate < endDate\<close> True] show ?thesis
        using True \<open>currentDate < endDate\<close> by (simp only: L R) simp
    next
      case False
      from "1.IH"(2) [OF \<open>currentDate < endDate\<close> False] show ?thesis
        using False \<open>currentDate < endDate\<close> by (simp only: L R) auto
    qed
  qed
qed

lemma collect_slots_weekend:
  assumes "\<not> includeWeekends prefs" and "day_of cur = 0 \<or> day_of cur = 6"
  shows "collect_slots cur ed d wh cmap prefs = collect_slots (add_days cur 1) ed d wh cmap prefs"
proof (cases "cur < ed")
  case True
  with assms show ?thesis by (simp add: collect_slots.simps [of cur])
next
  case False
  then have "\<not> add_days cur 1 < ed" by (simp add: add_days_def msPerDay_def)
  with False show ?thesis
    by (simp add: collect_slots.simps [of cur] collect_slots.simps [of "add_days cur 1"])
qed

lemma ai_score_includeWeekends [simp]:
  "ai_calculateTimeSlotScore h dw c (prefs\<lparr>includeWeekends := b\<rparr>)
   = ai_calculateTimeSlotScore h dw c prefs"
  unfolding ai_calculateTimeSlotScore_def Let_def
  by (simp split del: if_split cong: if_cong)

lemma ai_hour_loop_includeWeekends:
  "ai_hour_loop dt h l60 es dw (prefs\<lparr>includeWeekends := b\<rparr>) = ai_hour_loop dt h l60 es dw prefs"
proof (induction dt h l60 es dw prefs rule: ai_hour_loop.induct)
  case (1 date' hour limit60 existingSlots dayOfWeek prefs)
  note L = ai_hour_loop.simps [of date' hour limit60 existingSlots dayOfWeek
      "prefs\<lparr>includeWeekends := b\<rparr>"]
  note R = ai_hour_loop.simps [of date' hour limit60 existingSlots dayOfWeek prefs]
  show ?case
  proof (cases "60 * hour \<le> limit60")
    case False
    then show ?thesis by (simp only: L R if_False)
  next
    case True
    from "1.IH" [OF True refl refl refl] show ?thesis
      using True by (simp only: L R) (simp add: Let_def)
  qed
qed

lemma concat_map_if:
  "concat (map (\<lambda>x. if P x then f x else []) xs) = concat (map f (filter P xs))"
  by (induction xs) simp_all

lemma calculateOptimalTimeSlots_mset:
  "mset (calculateOptimalTimeSlots now es d prefs)
   = mset (concat (map (\<lambda>day. ai_hour_loop (add_days now day)
                          (wh_start (effective_workingHours prefs))
                          (60 * wh_end (effective_workingHours prefs) - d) es
                          (day_of (add_days now day)) prefs)
               (filter (\<lambda>day. day_of (add_days now day) \<in> set (effective_preferredDays prefs))
                  [0..13])))"
proof -
  have e: "\<And>day. now + day * 24 * 60 * 60 * 1000 = add_days now day"
    by (simp add: add_days_def msPerDay_def)
  show ?thesis
    unfolding calculateOptimalTimeSlots_def Let_def e effective_workingHours_def
      effective_preferredDays_def concat_map_if
    by (simp del: mset_concat upto.simps)
qed

text \<open>
  C7, as the code has it. \<^verbatim>\<open>generateOptimalTimeSlots\<close> never reads
  \<^verbatim>\<open>preferredDays\<close>: its result is the same whatever that field holds, a Saturday or
  Sunday adds nothing to the slots when \<^verbatim>\<open>includeWeekends\<close> is false, and the slots
  are those of the days that are not a Saturday or Sunday, or of all days when
  \<^verbatim>\<open>includeWeekends\<close> is true. \<^verbatim>\<open>calculateOptimalTimeSlots\<close> of the AI insights
  service never reads \<^verbatim>\<open>includeWeekends\<close>: among the 14 days from now it keeps the
  days whose number is in \<^verbatim>\<open>preferredDays\<close> (by default Monday to Friday), weekend
  or not.
\<close>

theorem C7_weekend_policy:
  "generateOptimalTimeSlots ps d sd ed cd (prefs\<lparr>preferredDays := pd\<rparr>)
     = generateOptimalTimeSlots ps d sd ed cd prefs
   \<and> (\<not> includeWeekends prefs \<and> (day_of cur = 0 \<or> day_of cur = 6) \<longrightarrow>
        collect_slots cur ed d wh cmap prefs = collect_slots (add_days cur 1) ed d wh cmap prefs)
   \<and> mset (generateOptimalTimeSlots ps d sd (add_days sd (int n)) cd prefs)
     = mset (concat (map (\<lambda>i. day_slots (add_days sd (int i)) d (effective_workingHours prefs)
                              (slot_conflictMap cd) prefs)
               (filter (\<lambda>i. includeWeekends prefs
                            \<or> (day_of (add_days sd (int i)) \<noteq> 0
                                \<and> day_of (add_days sd (int i)) \<noteq> 6)) [0..<n])))
   \<and> calculateOptimalTimeSlots now es d (prefs\<lparr>includeWeekends := b\<rparr>)
     = calculateOptimalTimeSlots now es d prefs
   \<and> mset (calculateOptimalTimeSlots now es d prefs)
     = mset (concat (map (\<lambda>day. ai_hour_loop (add_days now day)
                          (wh_start (effective_workingHours prefs))
                          (60 * wh_end (effective_workingHours prefs) - d) es
                          (day_of (add_days now day)) prefs)
               (filter (\<lambda>day. day_of (add_days now day) \<in> set (effective_preferredDays prefs))
                  [0..13])))"
proof -
  have a: "generateOptimalTimeSlots ps d sd ed cd (prefs\<lparr>preferredDays := pd\<rparr>)
     = generateOptimalTimeSlots ps d sd ed cd prefs"
    by (simp add: generateOptimalTimeSlots_def collect_slots_preferredDays)
  have b: "calculateOptimalTimeSlots now es d (prefs\<lparr>includeWeekends := b\<rparr>)
     = calculateOptimalTimeSlots now es d prefs"
    by (simp add: calculateOptimalTimeSlots_def ai_hour_loop_includeWeekends Let_def
        cong: if_cong)
  from a b collect_slots_weekend [of prefs cur ed d wh cmap]
    generateOptimalTimeSlots_mset [of ps d sd n cd prefs, unfolded day_kept_def]
    calculateOptimalTimeSlots_mset [of now es d prefs]
  show ?thesis by blast
qed

text \<open>C7 as stated fails: Saturday 1970-01-03 is the only day of the horizon and its
  number is in \<^verbatim>\<open>preferredDays\<close>, with \<^verbatim>\<open>includeWeekends\<close> false; no candidate is
  generated.\<close>

theorem C7_preferred_saturday_counterexample:
  "day_of 172800000 = 6
   \<and> generateOptimalTimeSlots [] 30 172800000 (add_days 172800000 1) []
       (no_preferences\<lparr>preferredDays := Some [6]\<rparr>) = []"
  by code_simp

text \<open>The same request to both generators.\<close>

theorem C7_weekend_policy_witness:
  "generateOptimalTimeSlots [] 30 172800000 (add_days 172800000 1) []
       (no_preferences\<lparr>preferredDays := Some [6]\<rparr>) = []
   \<and> map (\<lambda>s. day_of (dateTime s))
       (calculateOptimalTimeSlots 172800000 [] 420
          (no_preferences\<lparr>preferredDays := Some [6], includeWeekends := False\<rparr>)) = [6, 6, 6, 6]"
proof -
  let ?p = "no_preferences\<lparr>preferredDays := Some [6]\<rparr>"
  note c7 = C7_weekend_policy [where ps = "[]" and d = 30 and sd = 172800000
      and ed = "add_days 172800000 1" and cd = "[]" and prefs = no_preferences
      and pd = "Some [6]" and cur = 172800000 and wh = default_workingHours
      and cmap = "slot_conflictMap []"]
  have sat: "\<not> includeWeekends no_preferences \<and> (day_of 172800000 = 0 \<or> day_of 172800000 = 6)"
    by (simp add: no_preferences_def day_of_def msPerDay_def)
  have "generateOptimalTimeSlots [] 30 172800000 (add_days 172800000 1) [] ?p
      = generateOptimalTimeSlots [] 30 172800000 (add_days 172800000 1) [] no_preferences"
    using c7 by blast
  also have "\<dots> = sort_key (\<lambda>s. - score s)
      (collect_slots 172800000 (add_days 172800000 1) 30 default_workingHours
         (slot_conflictMap []) no_preferences)"
    by (simp add: generateOptimalTimeSlots_def no_preferences_def)
  also have "collect_slots 172800000 (add_days 172800000 1) 30 default_workingHours
         (slot_conflictMap []) no_preferences
      = collect_slots (add_days 172800000 1) (add_days 172800000 1) 30 default_workingHours
         (slot_conflictMap []) no_preferences"
    using c7 sat by blast
  also have "\<dots> = []" by (subst collect_slots.simps) simp
  finally have g: "generateOptimalTimeSlots [] 30 172800000 (add_days 172800000 1) [] ?p = []"
    by simp
  have "map (\<lambda>s. day_of (dateTime s))
       (calculateOptimalTimeSlots 172800000 [] 420
          (no_preferences\<lparr>preferredDays := Some [6], includeWeekends := False\<rparr>)) = [6, 6, 6, 6]"
    by code_simp
  with g show ?thesis by simp
qed

section \<open>Properties of the numbers\<close>

lemma round_half_even_of_int [simp]: "round_half_even (of_int j) = j"
  by (simp add: round_half_even_def)

lemma bitlen_pos: "0 < n \<Longrightarrow> 1 \<le> bitlen n"
proof (rule ccontr)
  assume n: "0 < n" and "\<not> 1 \<le> bitlen n"
  then have "nat (bitlen n) = 0" by simp
  with bitlen_bounds [OF n] have "n < 1" by simp
  with n show False by simp
qed

lemma floor_log2_of_int:
  assumes "0 < n"
  shows "floor_log2 (of_int n) = bitlen n - 1"
proof -
  from bitlen_pos [OF assms] have b: "1 \<le> bitlen n" .
  from bitlen_bounds [OF assms] have "(2::int) ^ nat (bitlen n - 1) \<le> n" by simp
  then have "rat_of_int (2 ^ nat (bitlen n - 1)) \<le> of_int n" by (simp only: of_int_le_iff)
  then have le: "(2::rat) powi (bitlen n - 1) \<le> of_int n"
    using b by (simp add: power_int_def)
  have "bitlen 1 = 1" by code_simp
  then show ?thesis
    unfolding floor_log2_def using le by (simp add: Let_def)
qed

text \<open>An integer below \<open>2 ^ 53\<close> in absolute value is a double.\<close>

lemma round_double_of_int:
  assumes "\<bar>k\<bar> < 2 ^ 53"
  shows "round_double (of_int k) = of_int k"
proof (cases "k = 0")
  case True
  then show ?thesis by (simp add: round_double_def)
next
  case False
  define n where "n = \<bar>k\<bar>"
  from False have n: "0 < n" by (simp add: n_def)
  define m where "m = nat (53 - bitlen n)"
  from assms have "bitlen n \<le> 53" unfolding n_def by (simp add: bitlen_le_iff_power)
  then have e: "bitlen n - 1 - 52 = - int m" by (simp add: m_def)
  have abs: "\<bar>rat_of_int k\<bar> = of_int n" by (simp add: n_def)
  have p: "(2::rat) powi (- int m) = 1 / 2 ^ m"
    by (simp add: power_int_def field_simps)
  have q: "rat_of_int k / (1 / 2 ^ m) = of_int (k * 2 ^ m)" by simp
  show ?thesis
    unfolding round_double_def abs floor_log2_of_int [OF n] e Let_def p q round_half_even_of_int
    using False by simp
qed

text \<open>The sum that \<^verbatim>\<open>reduce\<close> computes is exact as long as it stays below \<open>2 ^ 53\<close>.\<close>

lemma foldl_number_add:
  assumes "0 \<le> a" and "\<forall>x\<in>set xs. 0 \<le> x" and "a + sum_list xs < 2 ^ 53"
  shows "foldl (\<lambda>sum' score'. number_add sum' score') (of_int a) (map rat_of_int xs)
       = of_int (a + sum_list xs)"
  using assms
proof (induction xs arbitrary: a)
  case Nil
  then show ?case by simp
next
  case (Cons x xs)
  from Cons.prems have x: "0 \<le> x" and xs: "\<forall>x\<in>set xs. 0 \<le> x" by simp_all
  from xs have s: "0 \<le> sum_list xs" by (simp add: sum_list_nonneg)
  from Cons.prems x s have b: "\<bar>a + x\<bar> < 2 ^ 53" by simp
  have "number_add (of_int a) (of_int x) = of_int (a + x)"
    unfolding number_add_def using round_double_of_int [OF b] by simp
  moreover have "foldl (\<lambda>sum' score'. number_add sum' score') (of_int (a + x)) (map rat_of_int xs)
      = of_int (a + x + sum_list xs)"
    using Cons.prems x by (intro Cons.IH xs) (simp_all add: add.assoc)
  ultimately show ?case by (simp add: add.assoc)
qed

lemma foldl_max_Max: "foldl max x xs = Max (set (x # xs :: 'a :: linorder list))"
proof (induction xs arbitrary: x)
  case Nil
  then show ?case by simp
next
  case (Cons y ys)
  have "foldl max x (y # ys) = foldl max (max x y) ys" by simp
  also have "\<dots> = Max (set (max x y # ys))" by (rule Cons.IH)
  also have "\<dots> = Max (set (x # y # ys))"
    by (cases "ys = []") (simp_all add: max.assoc)
  finally show ?case .
qed

lemma Max_of_int:
  assumes "xs \<noteq> []"
  shows "Max (set (map rat_of_int xs)) = of_int (Max (set xs))"
proof -
  have "mono rat_of_int" by (simp add: mono_def)
  from mono_Max_commute [OF this, of "set xs"] assms show ?thesis by simp
qed

text \<open>The exponent that \<^const>\<open>round_double\<close> takes from \<^const>\<open>floor_log2\<close> is the right one.\<close>

lemma quotient_of_pos:
  assumes "0 < x" and "quotient_of x = (p, q)"
  shows "0 < p \<and> 0 < q \<and> x = of_int p / of_int q"
proof -
  from quotient_of_denom_pos [OF assms(2)] have q: "0 < q" .
  from quotient_of_div [OF assms(2)] have x: "x = of_int p / of_int q" .
  with assms(1) q have "0 < p" by (simp add: zero_less_divide_iff)
  with q x show ?thesis by simp
qed

lemma floor_log2_bounds:
  assumes "0 < x"
  shows "2 powi floor_log2 x \<le> x \<and> x < 2 powi (floor_log2 x + 1)"
proof -
  obtain p q where pq: "quotient_of x = (p, q)" by (cases "quotient_of x")
  from quotient_of_pos [OF assms pq] have p: "0 < p" and q: "0 < q"
    and x: "x = of_int p / of_int q" by simp_all
  define k where "k = bitlen p - bitlen q"
  have fl: "floor_log2 x = (if 2 powi k \<le> x then k else k - 1)"
    unfolding floor_log2_def pq k_def by (simp add: Let_def)
  from bitlen_pos [OF p] bitlen_pos [OF q] have bp: "1 \<le> bitlen p" and bq: "1 \<le> bitlen q" .
  from bitlen_bounds [OF p] have p1: "(2::int) ^ nat (bitlen p - 1) \<le> p" and p2: "p < 2 ^ nat (bitlen p)"
    by simp_all
  from bitlen_bounds [OF q] have q1: "(2::int) ^ nat (bitlen q - 1) \<le> q" and q2: "q < 2 ^ nat (bitlen q)"
    by simp_all
  have P1: "(2::rat) powi (bitlen p - 1) \<le> of_int p"
  proof -
    from p1 have "rat_of_int (2 ^ nat (bitlen p - 1)) \<le> of_int p" by (simp only: of_int_le_iff)
    then show ?thesis using bp by (simp add: power_int_def)
  qed
  have P2: "rat_of_int p < 2 powi (bitlen p)"
  proof -
    from p2 have "rat_of_int p < of_int (2 ^ nat (bitlen p))" by (simp only: of_int_less_iff)
    then show ?thesis using bp by (simp add: power_int_def)
  qed
  have Q1: "(2::rat) powi (bitlen q - 1) \<le> of_int q"
  proof -
    from q1 have "rat_of_int (2 ^ nat (bitlen q - 1)) \<le> of_int q" by (simp only: of_int_le_iff)
    then show ?thesis using bq by (simp add: power_int_def)
  qed
  have Q2: "rat_of_int q < 2 powi (bitlen q)"
  proof -
    from q2 have "rat_of_int q < of_int (2 ^ nat (bitlen q))" by (simp only: of_int_less_iff)
    then show ?thesis using bq by (simp add: power_int_def)
  qed
  have qpos: "0 < rat_of_int q" using q by simp
  have ppos: "0 < rat_of_int p" using p by simp
  have lo: "(2::rat) powi (k - 1) \<le> x"
  proof -
    have "(2::rat) powi (k - 1) * of_int q \<le> 2 powi (k - 1) * 2 powi (bitlen q)"
      using Q2 by (intro mult_left_mono) simp_all
    also have "\<dots> = 2 powi (bitlen p - 1)"
      unfolding k_def by (simp add: power_int_add [symmetric])
    also have "\<dots> \<le> of_int p" by (rule P1)
    finally show ?thesis unfolding x using qpos by (simp add: pos_le_divide_eq)
  qed
  have hi: "x < (2::rat) powi (k + 1)"
  proof -
    have "rat_of_int p < 2 powi (bitlen p)" by (rule P2)
    also have "\<dots> = 2 powi (k + 1) * 2 powi (bitlen q - 1)"
      unfolding k_def by (simp add: power_int_add [symmetric])
    also have "\<dots> \<le> 2 powi (k + 1) * of_int q"
      using Q1 by (intro mult_left_mono) simp_all
    finally show ?thesis unfolding x using qpos by (simp add: pos_divide_less_eq)
  qed
  show ?thesis
  proof (cases "2 powi k \<le> x")
    case True
    with fl hi show ?thesis by simp
  next
    case False
    with fl lo show ?thesis by simp
  qed
qed

lemma round_half_even_error: "\<bar>of_int (round_half_even y) - y\<bar> \<le> 1 / 2"
proof -
  define f where "f = \<lfloor>y\<rfloor>"
  define d where "d = y - of_int f"
  have "0 \<le> d" "d < 1" unfolding d_def f_def by linarith+
  have y: "y = of_int f + d" by (simp add: d_def)
  have r: "round_half_even y = (if d < 1 / 2 then f else if 1 / 2 < d then f + 1
      else if even f then f else f + 1)"
    unfolding round_half_even_def f_def [symmetric] d_def [symmetric] Let_def ..
  consider "d < 1 / 2" | "1 / 2 < d" | "d = 1 / 2" by linarith
  then show ?thesis
  proof cases
    case 1
    with r have "of_int (round_half_even y) - y = - d" by (simp add: d_def)
    with 1 \<open>0 \<le> d\<close> show ?thesis by simp
  next
    case 2
    with r have "of_int (round_half_even y) - y = 1 - d" by (simp add: d_def)
    with 2 \<open>d < 1\<close> show ?thesis by simp
  next
    case 3
    with r have "of_int (round_half_even y) - y = - d \<or> of_int (round_half_even y) - y = 1 - d"
      by (simp add: d_def)
    with 3 show ?thesis by auto
  qed
qed

text \<open>A rounding changes a number by at most the fraction \<open>1 / 2 ^ 53\<close> of it.\<close>

lemma round_double_error: "\<bar>round_double x - x\<bar> \<le> \<bar>x\<bar> / 2 ^ 53"
proof (cases "x = 0")
  case True
  then show ?thesis by (simp add: round_double_def)
next
  case False
  define e where "e = floor_log2 \<bar>x\<bar> - 52"
  define w where "w = (2::rat) powi e"
  have wpos: "0 < w" unfolding w_def by simp
  from False have "0 < \<bar>x\<bar>" by simp
  from floor_log2_bounds [OF this] have lo: "2 powi (e + 52) \<le> \<bar>x\<bar>"
    unfolding e_def by simp
  have rd: "round_double x = of_int (round_half_even (x / w)) * w"
    unfolding round_double_def w_def e_def using False by (simp add: Let_def)
  have "\<bar>round_double x - x\<bar> = \<bar>of_int (round_half_even (x / w)) - x / w\<bar> * w"
  proof -
    have "round_double x - x = (of_int (round_half_even (x / w)) - x / w) * w"
      unfolding rd using wpos by (simp add: field_simps)
    then show ?thesis using wpos by (simp add: abs_mult)
  qed
  also have "\<dots> \<le> 1 / 2 * w"
    using round_half_even_error [of "x / w"] wpos by (intro mult_right_mono) simp_all
  also have "\<dots> = 2 powi (e + 52) / 2 ^ 53"
    unfolding w_def by (simp add: power_int_add)
  also have "\<dots> \<le> \<bar>x\<bar> / 2 ^ 53" using lo by (simp add: divide_right_mono)
  finally show ?thesis .
qed


text \<open>The result of a rounding is a double: an integer of at most 53 bits times a power
  of two.\<close>

lemma round_double_mantissa:
  assumes "x \<noteq> 0"
  shows "\<exists>m e. round_double x = of_int m * 2 powi e \<and> \<bar>m\<bar> \<le> 2 ^ 53"
proof -
  define e where "e = floor_log2 \<bar>x\<bar> - 52"
  define w where "w = (2::rat) powi e"
  define y where "y = x / w"
  define m where "m = round_half_even y"
  have wpos: "0 < w" unfolding w_def by simp
  from assms have "0 < \<bar>x\<bar>" by simp
  from floor_log2_bounds [OF this] have "\<bar>x\<bar> < 2 powi (e + 53)"
    unfolding e_def by (simp add: algebra_simps)
  also have "\<dots> = 2 ^ 53 * w" unfolding w_def by (simp add: power_int_add)
  finally have yb: "\<bar>y\<bar> < 2 ^ 53" unfolding y_def using wpos by (simp add: pos_divide_less_eq)
  have "rat_of_int m = (of_int m - y) + y" by simp
  then have "\<bar>rat_of_int m\<bar> \<le> \<bar>of_int m - y\<bar> + \<bar>y\<bar>" by (metis abs_triangle_ineq)
  moreover have "\<bar>of_int m - y\<bar> \<le> 1 / 2" unfolding m_def by (rule round_half_even_error)
  ultimately have "\<bar>rat_of_int m\<bar> < rat_of_int (2 ^ 53 + 1)" using yb by simp
  then have "rat_of_int \<bar>m\<bar> < rat_of_int (2 ^ 53 + 1)" by simp
  then have "\<bar>m\<bar> < 2 ^ 53 + 1" by (simp only: of_int_less_iff)
  then have "\<bar>m\<bar> \<le> 2 ^ 53" by simp
  moreover have "round_double x = of_int m * 2 powi e"
    unfolding round_double_def m_def y_def w_def e_def using assms by (simp add: Let_def)
  ultimately show ?thesis by blast
qed

lemma round_double_relative:
  "\<exists>q. \<bar>q - 1\<bar> \<le> 1 / 2 ^ 53 \<and> round_double x = x * q"
proof (cases "x = 0")
  case True
  then show ?thesis by (intro exI [of _ 1]) (simp add: round_double_def)
next
  case False
  define q where "q = round_double x / x"
  have "q - 1 = (round_double x - x) / x" using False by (simp add: q_def field_simps)
  then have "\<bar>q - 1\<bar> = \<bar>round_double x - x\<bar> / \<bar>x\<bar>" by simp
  also have "\<dots> \<le> (\<bar>x\<bar> / 2 ^ 53) / \<bar>x\<bar>"
    using round_double_error [of x] by (intro divide_right_mono) simp_all
  also have "\<dots> = 1 / 2 ^ 53" using False by simp
  finally have "\<bar>q - 1\<bar> \<le> 1 / 2 ^ 53" .
  moreover have "round_double x = x * q" using False by (simp add: q_def)
  ultimately show ?thesis by blast
qed

lemma relative_step:
  fixes a q \<alpha> :: rat
  assumes "\<bar>a - 1\<bar> \<le> \<alpha>" and "\<bar>q - 1\<bar> \<le> 1 / 2 ^ 53" and "\<alpha> \<le> 1"
  shows "\<bar>a * q - 1\<bar> \<le> \<alpha> + 2 / 2 ^ 53"
proof -
  from assms(1,3) have a: "\<bar>a\<bar> \<le> 2" by (simp add: abs_le_iff)
  have "a * q - 1 = (a - 1) + a * (q - 1)" by (simp add: algebra_simps)
  then have "\<bar>a * q - 1\<bar> \<le> \<bar>a - 1\<bar> + \<bar>a * (q - 1)\<bar>" by (simp add: abs_triangle_ineq)
  also have "\<bar>a * (q - 1)\<bar> = \<bar>a\<bar> * \<bar>q - 1\<bar>" by (rule abs_mult)
  also have "\<bar>a\<bar> * \<bar>q - 1\<bar> \<le> 2 * (1 / 2 ^ 53)"
    using a assms(2) by (intro mult_mono) simp_all
  finally show ?thesis using assms(1) by simp
qed

lemma sum_list_le_length:
  fixes xs :: "int list"
  assumes "\<forall>x\<in>set xs. x \<le> b"
  shows "sum_list xs \<le> int (length xs) * b"
  using assms by (induction xs) (auto simp: algebra_simps)

lemma math_round_near:
  assumes "\<bar>a - b\<bar> \<le> 1"
  shows "\<bar>math_round a - math_round b\<bar> \<le> 1"
proof -
  have step: "\<And>c d :: rat. c \<le> d + 1 \<Longrightarrow> \<lfloor>c + 1 / 2\<rfloor> \<le> \<lfloor>d + 1 / 2\<rfloor> + 1"
  proof -
    fix c d :: rat assume "c \<le> d + 1"
    then have "c + 1 / 2 \<le> (d + 1 / 2) + of_int 1" by simp
    then have "\<lfloor>c + 1 / 2\<rfloor> \<le> \<lfloor>(d + 1 / 2) + of_int 1\<rfloor>" by (rule floor_mono)
    also have "\<dots> = \<lfloor>d + 1 / 2\<rfloor> + 1" by (simp only: floor_add_int)
    finally show "\<lfloor>c + 1 / 2\<rfloor> \<le> \<lfloor>d + 1 / 2\<rfloor> + 1" .
  qed
  from assms have "a \<le> b + 1" and "b \<le> a + 1" by (simp_all add: abs_le_iff)
  from step [OF this(1)] step [OF this(2)] show ?thesis
    unfolding math_round_def by (simp add: abs_le_iff)
qed


section \<open>The confidence of a suggestion set\<close>

lemma calculateConfidenceScore_eq:
  assumes "suggestions' \<noteq> []" and "length suggestions' \<le> argumentLimit"
    and "\<forall>s\<in>set suggestions'. 0 \<le> score s"
    and "sum_list (map score suggestions') < 2 ^ 53"
  shows "calculateConfidenceScore argumentLimit suggestions'
    = Inr (math_round (number_mul
        (number_mul (number_div (mean_score (map score suggestions')) 100)
                    (number_div (of_int (max_score (map score suggestions'))) 100))
        100))"
proof -
  from assms(1) obtain s ss where eq: "suggestions' = s # ss" by (cases suggestions') auto
  let ?scores = "map score (s # ss)"
  have m: "map (\<lambda>s. rat_of_int (score s)) (s # ss) = map rat_of_int ?scores" by simp
  have sum: "foldl (\<lambda>sum' score'. number_add sum' score') 0 (map rat_of_int ?scores)
      = of_int (sum_list ?scores)"
    using foldl_number_add [of 0 ?scores] assms(3,4) unfolding eq by simp
  have mx: "foldl max (hd (map rat_of_int ?scores)) (tl (map rat_of_int ?scores))
      = of_int (max_score ?scores)"
    unfolding max_score_def foldl_max_Max
    using Max_of_int [of ?scores] by simp
  from assms(2) have lim: "\<not> argumentLimit < length (map rat_of_int ?scores)"
    unfolding eq by simp
  show ?thesis
    unfolding eq calculateConfidenceScore.simps m Let_def sum mx mean_score_def
    using lim by simp
qed

lemma calculateSuggestionConfidence_eq:
  assumes "suggestions' \<noteq> []"
    and "\<forall>s\<in>set suggestions'. 0 \<le> ai_score s"
    and "sum_list (map ai_score suggestions') < 2 ^ 53"
    and "ai_score (hd suggestions') \<noteq> 0"
  shows "calculateSuggestionConfidence suggestions'
    = Some (math_round (number_mul
        (number_mul (number_div (of_int (ai_score (hd suggestions'))) 100)
           (number_sub 1
              (number_div (number_sub (of_int (ai_score (hd suggestions')))
                                      (mean_score (map ai_score suggestions')))
                          (of_int (ai_score (hd suggestions'))))))
        100))"
proof -
  from assms(1) obtain s ss where eq: "suggestions' = s # ss" by (cases suggestions') auto
  let ?scores = "map ai_score (s # ss)"
  have f: "\<And>a l. foldl (\<lambda>sum' s'. number_add sum' (of_int (ai_score s'))) a l
      = foldl (\<lambda>sum' score'. number_add sum' score') a (map rat_of_int (map ai_score l))"
    by (simp add: foldl_map)
  have sum: "foldl (\<lambda>sum' s'. number_add sum' (of_int (ai_score s'))) 0 (s # ss)
      = of_int (sum_list ?scores)"
    unfolding f using foldl_number_add [of 0 ?scores] assms(2,3) unfolding eq by simp
  from assms(4) have nz: "rat_of_int (ai_score s) \<noteq> 0" unfolding eq by simp
  show ?thesis
    unfolding eq calculateSuggestionConfidence.simps Let_def sum mean_score_def
    using nz by simp
qed

lemma double_confidence_near_exact:
  fixes scores :: "int list"
  assumes "scores \<noteq> []" and "\<forall>x\<in>set scores. 0 \<le> x \<and> x \<le> 2 ^ 24"
  shows "\<bar>math_round (number_mul
            (number_mul (number_div (mean_score scores) 100)
                        (number_div (of_int (max_score scores)) 100))
            100)
          - exact_confidence scores\<bar> \<le> 1"
proof -
  define s where "s = rat_of_int (sum_list scores)"
  define n where "n = (of_nat (length scores) :: rat)"
  define M where "M = rat_of_int (max_score scores)"
  define v where "v = (s / n / 100) * (M / 100) * 100"
  from assms(1) have npos: "1 \<le> n" unfolding n_def by (cases scores) simp_all
  from assms(2) have "0 \<le> sum_list scores" by (simp add: sum_list_nonneg)
  then have s0: "0 \<le> s" by (simp add: s_def)
  from assms(2) have "sum_list scores \<le> int (length scores) * 2 ^ 24"
    by (intro sum_list_le_length) simp
  then have "rat_of_int (sum_list scores) \<le> rat_of_int (int (length scores) * 2 ^ 24)"
    by (simp only: of_int_le_iff)
  then have sb: "s \<le> n * 2 ^ 24" by (simp add: s_def n_def)
  have Mm: "max_score scores \<in> set scores" unfolding max_score_def using assms(1) by simp
  with assms(2) have "0 \<le> max_score scores" "max_score scores \<le> 2 ^ 24" by blast+
  then have "rat_of_int 0 \<le> rat_of_int (max_score scores)"
    "rat_of_int (max_score scores) \<le> rat_of_int (2 ^ 24)" by (simp_all only: of_int_le_iff)
  then have M0: "0 \<le> M" and Mb: "M \<le> 2 ^ 24" by (simp_all add: M_def)
  have v0: "0 \<le> v" unfolding v_def using s0 M0 npos by simp
  have vb: "v \<le> 2 ^ 48"
  proof -
    define t where "t = (s / n) * M"
    have "s / n \<le> 2 ^ 24" using sb npos by (simp add: pos_divide_le_eq mult.commute)
    moreover have sn: "0 \<le> s / n" using s0 npos by simp
    ultimately have "t \<le> 2 ^ 24 * 2 ^ 24" unfolding t_def using M0 Mb by (intro mult_mono) simp_all
    then have tb: "t \<le> 2 ^ 48" by simp
    have t0: "0 \<le> t" unfolding t_def using sn M0 by (rule mult_nonneg_nonneg)
    have "v = t / 100" by (simp add: v_def t_def mult.commute)
    also have "\<dots> \<le> t" using t0 by simp
    finally show ?thesis using tb by simp
  qed
  define A where "A = mean_score scores"
  define B where "B = number_div A 100"
  define C where "C = number_div (rat_of_int (max_score scores)) 100"
  define D where "D = number_mul B C"
  define E where "E = number_mul D 100"
  obtain q1 where q1: "\<bar>q1 - 1\<bar> \<le> 1 / 2 ^ 53" and e1: "A = (s / n) * q1"
    unfolding A_def mean_score_def number_div_def s_def n_def
    using round_double_relative [of "rat_of_int (sum_list scores) / of_nat (length scores)"] by blast
  obtain q2 where q2: "\<bar>q2 - 1\<bar> \<le> 1 / 2 ^ 53" and e2: "B = (A / 100) * q2"
    unfolding B_def number_div_def using round_double_relative [of "A / 100"] by blast
  obtain q3 where q3: "\<bar>q3 - 1\<bar> \<le> 1 / 2 ^ 53" and e3: "C = (M / 100) * q3"
    unfolding C_def number_div_def M_def
    using round_double_relative [of "rat_of_int (max_score scores) / 100"] by blast
  obtain q4 where q4: "\<bar>q4 - 1\<bar> \<le> 1 / 2 ^ 53" and e4: "D = (B * C) * q4"
    unfolding D_def number_mul_def using round_double_relative [of "B * C"] by blast
  obtain q5 where q5: "\<bar>q5 - 1\<bar> \<le> 1 / 2 ^ 53" and e5: "E = (D * 100) * q5"
    unfolding E_def number_mul_def using round_double_relative [of "D * 100"] by blast
  define P where "P = q1 * q2 * q3 * q4 * q5"
  have EP: "E = v * P"
    unfolding e5 e4 e2 e3 e1 v_def P_def by simp
  have p1: "\<bar>q1 - 1\<bar> \<le> 2 / 2 ^ 53" using q1 by simp
  from relative_step [OF p1 q2] have p2: "\<bar>q1 * q2 - 1\<bar> \<le> 4 / 2 ^ 53" by simp
  from relative_step [OF p2 q3] have p3: "\<bar>q1 * q2 * q3 - 1\<bar> \<le> 6 / 2 ^ 53" by simp
  from relative_step [OF p3 q4] have p4: "\<bar>q1 * q2 * q3 * q4 - 1\<bar> \<le> 8 / 2 ^ 53" by simp
  from relative_step [OF p4 q5] have "\<bar>P - 1\<bar> \<le> 10 / 2 ^ 53" unfolding P_def by simp
  then have P: "\<bar>P - 1\<bar> \<le> 1 / 2 ^ 48" by simp
  have "\<bar>v * P - v\<bar> = v * \<bar>P - 1\<bar>"
  proof -
    have "v * P - v = v * (P - 1)" by (simp add: algebra_simps)
    then show ?thesis using v0 by (simp add: abs_mult)
  qed
  also have "\<dots> \<le> 2 ^ 48 * (1 / 2 ^ 48)" using vb P v0 by (intro mult_mono) simp_all
  finally have "\<bar>v * P - v\<bar> \<le> 1" by simp
  then have "\<bar>E - v\<bar> \<le> 1" unfolding EP .
  from math_round_near [OF this] show ?thesis
    unfolding exact_confidence_def E_def D_def B_def C_def A_def v_def s_def n_def M_def .
qed

text \<open>
  C10, as the code has it. For a non-empty list of suggestions (no more of them than the
  engine accepts as arguments of one call; scores from 0 to \<open>2 ^ 24\<close>, with a sum below
  \<open>2 ^ 53\<close>), \<^verbatim>\<open>calculateConfidenceScore\<close> returns
  \<open>round ((avg / 100) * (max / 100) * 100)\<close> with every division and multiplication
  rounded to a double, where \<open>avg\<close> is the arithmetic mean of the scores as a double and
  \<open>max\<close> their maximum; this differs by at most 1 from the rounding of the exact value
  of the formula. \<^verbatim>\<open>calculateSuggestionConfidence\<close> of the AI insights service is
  another metric: \<open>round ((top / 100) * (1 - (top - avg) / top) * 100)\<close>, computed in
  doubles likewise, where \<open>top\<close> is the score of the first suggestion, not 0.
\<close>

theorem C10_confidence:
  "(suggestions' \<noteq> [] \<and> length suggestions' \<le> argumentLimit
      \<and> (\<forall>s\<in>set suggestions'. 0 \<le> score s \<and> score s \<le> 2 ^ 24)
      \<and> sum_list (map score suggestions') < 2 ^ 53
    \<longrightarrow> calculateConfidenceScore argumentLimit suggestions'
        = Inr (math_round (number_mul
            (number_mul (number_div (mean_score (map score suggestions')) 100)
                        (number_div (of_int (max_score (map score suggestions'))) 100))
            100))
      \<and> (\<exists>c. calculateConfidenceScore argumentLimit suggestions' = Inr c
            \<and> \<bar>c - exact_confidence (map score suggestions')\<bar> \<le> 1))
   \<and> (ai_suggestions \<noteq> [] \<and> (\<forall>s\<in>set ai_suggestions. 0 \<le> ai_score s)
      \<and> sum_list (map ai_score ai_suggestions) < 2 ^ 53 \<and> ai_score (hd ai_suggestions) \<noteq> 0
    \<longrightarrow> calculateSuggestionConfidence ai_suggestions
        = Some (math_round (number_mul
            (number_mul (number_div (of_int (ai_score (hd ai_suggestions))) 100)
               (number_sub 1
                  (number_div (number_sub (of_int (ai_score (hd ai_suggestions)))
                                          (mean_score (map ai_score ai_suggestions)))
                              (of_int (ai_score (hd ai_suggestions))))))
            100)))"
proof -
  have a: "suggestions' \<noteq> [] \<and> length suggestions' \<le> argumentLimit
      \<and> (\<forall>s\<in>set suggestions'. 0 \<le> score s \<and> score s \<le> 2 ^ 24)
      \<and> sum_list (map score suggestions') < 2 ^ 53
    \<longrightarrow> calculateConfidenceScore argumentLimit suggestions'
        = Inr (math_round (number_mul
            (number_mul (number_div (mean_score (map score suggestions')) 100)
                        (number_div (of_int (max_score (map score suggestions'))) 100))
            100))
      \<and> (\<exists>c. calculateConfidenceScore argumentLimit suggestions' = Inr c
            \<and> \<bar>c - exact_confidence (map score suggestions')\<bar> \<le> 1)"
  proof (intro impI, elim conjE)
    assume h: "suggestions' \<noteq> []" "length suggestions' \<le> argumentLimit"
      "\<forall>s\<in>set suggestions'. 0 \<le> score s \<and> score s \<le> 2 ^ 24"
      "sum_list (map score suggestions') < 2 ^ 53"
    from h(3) have nn: "\<forall>s\<in>set suggestions'. 0 \<le> score s" by blast
    from h(1) have ne: "map score suggestions' \<noteq> []" by simp
    from h(3) have bd: "\<forall>x\<in>set (map score suggestions'). 0 \<le> x \<and> x \<le> 2 ^ 24" by simp
    from calculateConfidenceScore_eq [OF h(1,2) nn h(4)]
      double_confidence_near_exact [OF ne bd]
    show "calculateConfidenceScore argumentLimit suggestions'
        = Inr (math_round (number_mul
            (number_mul (number_div (mean_score (map score suggestions')) 100)
                        (number_div (of_int (max_score (map score suggestions'))) 100))
            100))
      \<and> (\<exists>c. calculateConfidenceScore argumentLimit suggestions' = Inr c
            \<and> \<bar>c - exact_confidence (map score suggestions')\<bar> \<le> 1)"
      by simp
  qed
  from a calculateSuggestionConfidence_eq [of ai_suggestions]
  show ?thesis by blast
qed

text \<open>C10 as stated fails: for the scores 140 and 135 the mean is 137.5 and the exact
  value of the formula is 192.5, which rounds to 193; \<^verbatim>\<open>calculateConfidenceScore\<close>
  returns 192, because the double nearest to 1.4 lies below 1.4. For the scores 140 and
  100 the formula gives 168, and \<^verbatim>\<open>calculateSuggestionConfidence\<close> returns 120.\<close>

theorem C10_rounding_counterexample:
  "exact_confidence [140, 135] = 193
   \<and> calculateConfidenceScore 65536 [scored 140, scored 135] = Inr 192
   \<and> exact_confidence [140, 100] = 168
   \<and> calculateSuggestionConfidence [ai_scored 140, ai_scored 100] = Some 120"
  by code_simp

text \<open>Scores 140 and 100: the mean is 120, the maximum 140.\<close>

theorem C10_confidence_witness:
  "calculateConfidenceScore 65536 [scored 140, scored 100] = Inr 168
   \<and> calculateSuggestionConfidence [ai_scored 140, ai_scored 100] = Some 120"
proof -
  have h: "[scored 140, scored 100] \<noteq> [] \<and> length [scored 140, scored 100] \<le> 65536
      \<and> (\<forall>s\<in>set [scored 140, scored 100]. 0 \<le> score s \<and> score s \<le> 2 ^ 24)
      \<and> sum_list (map score [scored 140, scored 100]) < 2 ^ 53"
    "[ai_scored 140, ai_scored 100] \<noteq> [] \<and> (\<forall>s\<in>set [ai_scored 140, ai_scored 100]. 0 \<le> ai_score s)
      \<and> sum_list (map ai_score [ai_scored 140, ai_scored 100]) < 2 ^ 53
      \<and> ai_score (hd [ai_scored 140, ai_scored 100]) \<noteq> 0"
    by (simp_all add: scored_def ai_scored_def)
  have v: "math_round (number_mul
            (number_mul (number_div (mean_score (map score [scored 140, scored 100])) 100)
                        (number_div (of_int (max_score (map score [scored 140, scored 100]))) 100))
            100) = 168"
    "math_round (number_mul
            (number_mul (number_div (of_int (ai_score (hd [ai_scored 140, ai_scored 100]))) 100)
               (number_sub 1
                  (number_div (number_sub (of_int (ai_score (hd [ai_scored 140, ai_scored 100])))
                                          (mean_score (map ai_score [ai_scored 140, ai_scored 100])))
                              (of_int (ai_score (hd [ai_scored 140, ai_scored 100]))))))
            100) = 120"
    by code_simp+
  from C10_confidence [of "[scored 140, scored 100]" 65536 "[ai_scored 140, ai_scored 100]"] h
  show ?thesis unfolding v by blast
qed


section \<open>The conflict resolution strategies\<close>

lemma strategy_list:
  "map (\<lambda>s. (strategy_type s, effort s, impact s, probability s))
     (generateResolutionStrategies cd ca md)
   = [(''reschedule'', ''low'', ''high'', 0.9)]
     @ (if length (report_participants cd) > 3
        then [(''reduce_participants'', ''medium'', ''medium'', 0.7)] else [])
     @ (if (case md_duration md of None \<Rightarrow> False | Some d \<Rightarrow> d > 60)
        then [(''split_meeting'', ''high'', ''medium'', 0.6)] else [])
     @ (if \<exists>c\<in>set ca. flexibility c = ''high''
        then [(''override_conflicts'', ''medium'', ''high'', 0.8)] else [])"
  unfolding generateResolutionStrategies_def Let_def
  by (simp add: filter_empty_conv)

lemma strategy_types:
  "map strategy_type (generateResolutionStrategies cd ca md)
   = map fst (map (\<lambda>s. (strategy_type s, effort s, impact s, probability s))
       (generateResolutionStrategies cd ca md))"
  by (simp add: o_def)

lemma flexibility_high:
  "(flexibility (project_analysis us m) = ''high'')
   = (mtype m = Some ''standup'' \<or> mtype m = Some ''check-in'' \<or> mtype m = Some ''update'')"
  unfolding project_analysis_def flexibility_of_def
  by (cases "mtype m") auto

lemma example_report_returned:
  "checkAvailability (Suc depth) example_db [1, 2] 464400000 496800000 None = Some example_report"
proof -
  have l: "480 < diff_minutes 496800000 464400000"
    by (simp add: diff_minutes_def msPerMinute_def)
  show ?thesis
    unfolding example_report_def checkAvailability_long_window [OF l]
    by (simp add: diff_minutes_def msPerMinute_def)
qed

text \<open>
  C8, as the code has it. The strategies are, in this order: \<^verbatim>\<open>reschedule\<close> (effort
  low, impact high, probability 0.9) always; \<^verbatim>\<open>reduce_participants\<close> (medium, medium,
  0.7) if and only if the participant count is greater than 3, the count being that of
  the availability report, which is the number of requested participants when these are
  distinct stored users; \<^verbatim>\<open>split_meeting\<close> (high, medium, 0.6) if and only if the
  request states a duration and that duration exceeds 60 minutes;
  \<^verbatim>\<open>override_conflicts\<close> (medium, high, 0.8) if and only if at least one conflicting
  event is classified flexible, that is, has flexibility \<^verbatim>\<open>high\<close>. The stated priority
  of an event has no part in its being flexible: a low priority does not make it so.
\<close>

theorem C8_strategies:
  "map (\<lambda>s. (strategy_type s, effort s, impact s, probability s))
     (generateResolutionStrategies cd ca md)
   = [(''reschedule'', ''low'', ''high'', 0.9)]
     @ (if length (report_participants cd) > 3
        then [(''reduce_participants'', ''medium'', ''medium'', 0.7)] else [])
     @ (if (case md_duration md of None \<Rightarrow> False | Some d \<Rightarrow> d > 60)
        then [(''split_meeting'', ''high'', ''medium'', 0.6)] else [])
     @ (if \<exists>c\<in>set ca. flexibility c = ''high''
        then [(''override_conflicts'', ''medium'', ''high'', 0.8)] else [])
   \<and> (checkAvailability depth db (md_participants md) (md_startTime md) (md_endTime md) None
          = Some cd
        \<and> distinct (map user_id (users db)) \<and> distinct (md_participants md)
        \<and> set (md_participants md) \<subseteq> user_id ` set (users db)
      \<longrightarrow> length (report_participants cd) = length (md_participants md))
   \<and> ((flexibility (project_analysis us (m\<lparr>priority := p\<rparr>)) = ''high'')
        = (flexibility (project_analysis us m) = ''high''))"
proof -
  have a: "checkAvailability depth db (md_participants md) (md_startTime md) (md_endTime md) None
          = Some cd
        \<and> distinct (map user_id (users db)) \<and> distinct (md_participants md)
        \<and> set (md_participants md) \<subseteq> user_id ` set (users db)
      \<longrightarrow> length (report_participants cd) = length (md_participants md)"
  proof (intro impI, elim conjE)
    assume ret: "checkAvailability depth db (md_participants md) (md_startTime md)
        (md_endTime md) None = Some cd"
      and d: "distinct (map user_id (users db))" "distinct (md_participants md)"
        "set (md_participants md) \<subseteq> user_id ` set (users db)"
    from checkAvailability_returns [OF ret] fullAvailability_distinct_ids [OF d]
    show "length (report_participants cd) = length (md_participants md)" by simp
  qed
  have b: "(flexibility (project_analysis us (m\<lparr>priority := p\<rparr>)) = ''high'')
        = (flexibility (project_analysis us m) = ''high'')"
    by (simp add: project_analysis_def flexibility_of_def)
  from strategy_list [of cd ca md] a b show ?thesis by blast
qed

text \<open>C8 as stated fails. For the request of A and B, override_conflicts is not
  proposed, although the meeting of both has a low stated priority (its flexibility is
  \<^verbatim>\<open>medium\<close>) and the meeting of B has the category \<^verbatim>\<open>standup\<close> (its flexibility is
  \<^verbatim>\<open>low\<close>). The same request without a \<^verbatim>\<open>duration\<close> lasts nine hours and gets no
  \<^verbatim>\<open>split_meeting\<close>. And a request of four participants, one of whom is no stored
  user, has a report of three participants and gets no \<^verbatim>\<open>reduce_participants\<close>.\<close>

theorem C8_flexibility_counterexample:
  "priority meeting_AB = ''low''
   \<and> flexibility (project_analysis (users example_db) meeting_AB) = ''medium''
   \<and> category meeting_B = ''standup''
   \<and> flexibility (project_analysis (users example_db) meeting_B) = ''low''
   \<and> map strategy_type (generateResolutionStrategies example_report example_analysis example_request)
       = [''reschedule'', ''split_meeting'']
   \<and> diff_minutes (md_endTime example_request) (md_startTime example_request) = 540
   \<and> map strategy_type (generateResolutionStrategies example_report example_analysis
          (example_request\<lparr>md_duration := None\<rparr>))
       = [''reschedule'']
   \<and> map_option (\<lambda>r. (length (report_participants r),
          map strategy_type (generateResolutionStrategies r example_analysis
             (example_request\<lparr>md_participants := [1, 2, 3, 4]\<rparr>))))
        (checkAvailability 1 example_db [1, 2, 3, 4] 464400000 496800000 None)
       = Some (3, [''reschedule'', ''split_meeting''])"
proof -
  have l: "480 < diff_minutes 496800000 464400000"
    by (simp add: diff_minutes_def msPerMinute_def)
  have a: "priority meeting_AB = ''low''"
    "flexibility (project_analysis (users example_db) meeting_AB) = ''medium''"
    "category meeting_B = ''standup''"
    "flexibility (project_analysis (users example_db) meeting_B) = ''low''"
    "diff_minutes (md_endTime example_request) (md_startTime example_request) = 540"
    by code_simp+
  have fl: "\<not> (\<exists>c\<in>set example_analysis. flexibility c = ''high'')"
    by (simp add: example_analysis_def flexibility_high meeting_A_def meeting_B_def meeting_AB_def)
  have len: "length (report_participants example_report) = 2"
    "length (fullAvailability example_db [1, 2, 3, 4] 464400000 496800000 None) = 3"
    by (simp_all add: example_report_def fullAvailability_def allParticipants_def example_db_def
        user_A_def user_B_def user_C_def)
  have b: "map strategy_type (generateResolutionStrategies example_report example_analysis
        example_request) = [''reschedule'', ''split_meeting'']"
    "map strategy_type (generateResolutionStrategies example_report example_analysis
        (example_request\<lparr>md_duration := None\<rparr>)) = [''reschedule'']"
    unfolding strategy_types strategy_list using fl len(1)
    by (simp_all add: example_request_def)
  have c: "map_option (\<lambda>r. (length (report_participants r),
          map strategy_type (generateResolutionStrategies r example_analysis
             (example_request\<lparr>md_participants := [1, 2, 3, 4]\<rparr>))))
        (checkAvailability 1 example_db [1, 2, 3, 4] 464400000 496800000 None)
       = Some (3, [''reschedule'', ''split_meeting''])"
    unfolding One_nat_def checkAvailability_long_window [OF l] strategy_types strategy_list
    using fl len(2) by (simp add: example_request_def)
  from a b c show ?thesis by blast
qed

text \<open>The request of A and B for 9:00 to 18:00, which states its duration of 540
  minutes.\<close>

theorem C8_strategies_witness:
  "checkAvailability 1 example_db (md_participants example_request)
       (md_startTime example_request) (md_endTime example_request) None = Some example_report
   \<and> \<not> report_canSchedule example_report
   \<and> length (report_participants example_report) = 2
   \<and> map (\<lambda>s. (strategy_type s, effort s, impact s, probability s))
       (generateResolutionStrategies example_report example_analysis example_request)
     = [(''reschedule'', ''low'', ''high'', 0.9), (''split_meeting'', ''high'', ''medium'', 0.6)]"
proof -
  have ret: "checkAvailability 1 example_db (md_participants example_request)
       (md_startTime example_request) (md_endTime example_request) None = Some example_report"
    using example_report_returned [of 0] by (simp add: example_request_def)
  have d: "distinct (map user_id (users example_db)) \<and> distinct (md_participants example_request)
      \<and> set (md_participants example_request) \<subseteq> user_id ` set (users example_db)"
    by (simp add: example_db_def example_request_def user_A_def user_B_def user_C_def)
  have len: "length (md_participants example_request) = 2" by (simp add: example_request_def)
  have dur: "md_duration example_request = Some 540" by (simp add: example_request_def)
  have fl: "\<not> (\<exists>c\<in>set example_analysis. flexibility c = ''high'')"
    by (simp add: example_analysis_def flexibility_high meeting_A_def meeting_B_def meeting_AB_def)
  have cs: "\<not> report_canSchedule example_report" by code_simp
  note c8 = C8_strategies [of example_report example_analysis example_request 1 example_db]
  from c8 ret d have l: "length (report_participants example_report) = 2"
    unfolding len by blast
  from c8 have "map (\<lambda>s. (strategy_type s, effort s, impact s, probability s))
       (generateResolutionStrategies example_report example_analysis example_request)
     = [(''reschedule'', ''low'', ''high'', 0.9), (''split_meeting'', ''high'', ''medium'', 0.6)]"
    using fl unfolding l dur by simp
  with ret cs l show ?thesis by blast
qed


end
